theory Spec2Isabelle
  imports Complex_Main
begin

section \<open>Shared helpers\<close>

text \<open>
  JavaScript template literals interpolate numbers in decimal. \<open>show_nat\<close> and
  \<open>show_int\<close> print a natural number and an integer the way
  \<^verbatim>\<open>`${n}`\<close> does for an integral JavaScript number.
\<close>

definition digit_char :: "nat \<Rightarrow> char" where
  "digit_char d = char_of (48 + d)"

fun show_nat :: "nat \<Rightarrow> string" where
  "show_nat n = (if n < 10 then [digit_char n] else show_nat (n div 10) @ [digit_char (n mod 10)])"

declare show_nat.simps [simp del]

definition show_int :: "int \<Rightarrow> string" where
  "show_int i = (if i < 0 then CHR ''-'' # show_nat (nat (- i)) else show_nat (nat i))"

text \<open>
  A JavaScript \<^verbatim>\<open>Map\<close> keeps its keys in insertion order, and \<^verbatim>\<open>set\<close> on a key
  that is already present replaces the value where it stands. An association list with
  \<open>map_set\<close> models that; \<open>map_get\<close> is \<^verbatim>\<open>Map.get\<close> (\<open>None\<close> for
  \<^verbatim>\<open>undefined\<close>) and \<open>map_keys\<close> is \<^verbatim>\<open>[...m.keys()]\<close>.
\<close>

fun map_set :: "'k \<Rightarrow> 'v \<Rightarrow> ('k \<times> 'v) list \<Rightarrow> ('k \<times> 'v) list" where
  "map_set k v [] = [(k, v)]"
| "map_set k v ((k', v') # kvs) = (if k' = k then (k, v) # kvs else (k', v') # map_set k v kvs)"

fun map_get :: "('k \<times> 'v) list \<Rightarrow> 'k \<Rightarrow> 'v option" where
  "map_get [] k = None"
| "map_get ((k', v') # kvs) k = (if k' = k then Some v' else map_get kvs k)"

definition map_keys :: "('k \<times> 'v) list \<Rightarrow> 'k list" where
  "map_keys kvs = map fst kvs"

section \<open>Production monitor (scripts/monitoring-dashboard.js)\<close>

subsection \<open>Data\<close>

datatype service_status = Unknown | Healthy | Unhealthy

datatype deployment_health = DH_unknown | DH_healthy | DH_degraded | DH_unhealthy

datatype severity = Critical | Warning | Info

datatype overall_status = O_healthy | O_degraded | O_critical

record service =
  svc_name :: string
  svc_url :: string
  svc_type :: string

text \<open>
  The metrics object the constructor stores for each service. Counters are JavaScript
  numbers that only ever receive \<^verbatim>\<open>++\<close> and \<^verbatim>\<open>-\<close>, so they are
  integers; \<open>availability\<close> is the quotient of two such integers and is kept exact.
  Times are milliseconds since the epoch.
\<close>

record metrics =
  status :: service_status
  responseTime :: "int list"
  availability :: real
  errorCount :: int
  totalRequests :: int
  lastCheck :: "int option"
  consecutiveFailures :: int
  deploymentHealth :: deployment_health

record alert =
  a_severity :: severity
  a_service :: string
  a_message :: string
  a_timestamp :: int

record alertThresholds =
  thr_responseTime :: int
  thr_errorRate :: real
  thr_availability :: real

record notifications =
  slack :: bool
  email :: bool
  webhook :: bool

text \<open>
  The monitor object. \<open>sent\<close> lists the alerts handed to \<^verbatim>\<open>sendAlert\<close> (which
  prints the alert, notifies the configured channels and appends it to the day's alert
  file), \<open>channel_log\<close> the channel notifications it made, and \<open>errors\<close> the lines
  written by \<^verbatim>\<open>logError\<close>.
\<close>

datatype channel = Slack | Webhook | AlertFile

record monitor =
  mon_services :: "service list"
  mon_thresholds :: alertThresholds
  mon_notifications :: notifications
  mon_metrics :: "(string \<times> metrics) list"
  alerts :: "alert list"
  sent :: "alert list"
  channel_log :: "(channel \<times> alert) list"
  errors :: "(string \<times> string) list"

definition initial_metrics :: metrics where
  "initial_metrics = \<lparr> status = Unknown, responseTime = [], availability = 1,
     errorCount = 0, totalRequests = 0, lastCheck = None, consecutiveFailures = 0,
     deploymentHealth = DH_unknown \<rparr>"

definition default_services :: "service list" where
  "default_services =
    [\<lparr> svc_name = ''backend'', svc_url = ''https://quest-api.railway.app'', svc_type = ''api'' \<rparr>,
     \<lparr> svc_name = ''frontend'', svc_url = ''https://quest-frontend.netlify.app'', svc_type = ''web'' \<rparr>]"

definition default_thresholds :: alertThresholds where
  "default_thresholds = \<lparr> thr_responseTime = 2000, thr_errorRate = 5 / 100, thr_availability = 95 / 100 \<rparr>"

definition default_notifications :: notifications where
  "default_notifications = \<lparr> slack = False, email = False, webhook = False \<rparr>"

text \<open>The constructor: one fresh metrics object per configured service, no alerts.\<close>

definition ProductionMonitor :: "service list \<Rightarrow> alertThresholds \<Rightarrow> notifications \<Rightarrow> monitor" where
  "ProductionMonitor svcs thr notif =
    \<lparr> mon_services = svcs, mon_thresholds = thr, mon_notifications = notif,
      mon_metrics = fold (\<lambda>s ms. map_set (svc_name s) initial_metrics ms) svcs [],
      alerts = [], sent = [], channel_log = [], errors = [] \<rparr>"

definition default_monitor :: monitor where
  "default_monitor = ProductionMonitor default_services default_thresholds default_notifications"

subsection \<open>Alerts\<close>

text \<open>
  \<^verbatim>\<open>sendAlert\<close>: Slack and webhook when configured, then the alert file.
\<close>

definition sendAlert :: "alert \<Rightarrow> monitor \<Rightarrow> monitor" where
  "sendAlert a mon =
    mon\<lparr> sent := sent mon @ [a],
         channel_log := channel_log mon
           @ (if slack (mon_notifications mon) then [(Slack, a)] else [])
           @ (if webhook (mon_notifications mon) then [(Webhook, a)] else [])
           @ [(AlertFile, a)] \<rparr>"

text \<open>
  \<^verbatim>\<open>createAlert\<close>, with \<open>now\<close> the value of \<^verbatim>\<open>Date.now()\<close> at the call. An
  existing alert is a duplicate when service and message agree and it is less than
  300000 ms old. A new alert is pushed and sent; above 50 entries the first is shifted out.
\<close>

definition isDuplicate :: "int \<Rightarrow> alert \<Rightarrow> alert list \<Rightarrow> bool" where
  "isDuplicate now a existing_alerts =
    list_ex (\<lambda>existing. a_service existing = a_service a \<and> a_message existing = a_message a
                        \<and> now - a_timestamp existing < 300000) existing_alerts"

definition createAlert :: "int \<Rightarrow> alert \<Rightarrow> monitor \<Rightarrow> monitor" where
  "createAlert now a mon =
    (if \<not> isDuplicate now a (alerts mon) then
       (let mon1 = sendAlert a (mon\<lparr> alerts := alerts mon @ [a] \<rparr>)
        in if length (alerts mon1) > 50 then mon1\<lparr> alerts := tl (alerts mon1) \<rparr> else mon1)
     else mon)"

subsection \<open>Health checks\<close>

text \<open>
  What the network answers during one check of one service. \<open>fetched\<close> is the outcome of
  the connectivity \<^verbatim>\<open>fetch\<close>: it rejects (network error or timeout) with a
  message, or resolves to a response with its \<^verbatim>\<open>ok\<close> flag and status code.
  \<open>elapsed\<close> is \<^verbatim>\<open>Date.now() - startTime\<close>; \<open>clock\<close> is the time read when the
  check records its results. \<open>api\<close> is the outcome of the \<^verbatim>\<open>/health\<close> request of
  \<^verbatim>\<open>checkApiHealth\<close>: anything that throws there (rejected fetch, non-2xx, a body
  that is not JSON), or the parsed body with its status field and optional performance
  figures.
\<close>

datatype fetch_result = Rejected string | Responded bool int

record performance =
  avg_response_time_ms :: "int option"
  heap_used_mb :: "int option"

datatype api_result = ApiThrows string | ApiBody string "performance option"

record check_env =
  fetched :: fetch_result
  elapsed :: int
  clock :: int
  api :: api_result

definition logError :: "string \<Rightarrow> string \<Rightarrow> monitor \<Rightarrow> monitor" where
  "logError serviceName msg mon = mon\<lparr> errors := errors mon @ [(serviceName, msg)] \<rparr>"

definition calculateAvailability :: "metrics \<Rightarrow> real" where
  "calculateAvailability m =
    (if totalRequests m = 0 then 1
     else (let successfulRequests = totalRequests m - errorCount m
           in real_of_int successfulRequests / real_of_int (totalRequests m)))"

definition checkApiHealth :: "service \<Rightarrow> check_env \<Rightarrow> metrics \<Rightarrow> monitor \<Rightarrow> metrics \<times> monitor" where
  "checkApiHealth svc env m mon =
    (case api env of
       ApiThrows msg \<Rightarrow>
         (m\<lparr> deploymentHealth := DH_unhealthy \<rparr>,
          logError (svc_name svc) (''Health check failed: '' @ msg) mon)
     | ApiBody st perf \<Rightarrow>
         (let (m1, mon1) =
                (if st = ''healthy'' then (m\<lparr> deploymentHealth := DH_healthy \<rparr>, mon)
                 else (m\<lparr> deploymentHealth := DH_degraded \<rparr>,
                       createAlert (clock env)
                         \<lparr> a_severity = Warning, a_service = svc_name svc,
                           a_message = ''API reports degraded health: '' @ st,
                           a_timestamp = clock env \<rparr> mon));
              mon2 =
                (case perf of
                   None \<Rightarrow> mon1
                 | Some p \<Rightarrow>
                     (let mon_a =
                            (case avg_response_time_ms p of
                               Some t \<Rightarrow>
                                 (if t > thr_responseTime (mon_thresholds mon1) then
                                    createAlert (clock env)
                                      \<lparr> a_severity = Warning, a_service = svc_name svc,
                                        a_message = ''High average response time: '' @ show_int t @ ''ms'',
                                        a_timestamp = clock env \<rparr> mon1
                                  else mon1)
                             | None \<Rightarrow> mon1)
                      in (case heap_used_mb p of
                            Some h \<Rightarrow>
                              (if h > 100 then
                                 createAlert (clock env)
                                   \<lparr> a_severity = Warning, a_service = svc_name svc,
                                     a_message = ''High memory usage: '' @ show_int h @ ''MB'',
                                     a_timestamp = clock env \<rparr> mon_a
                               else mon_a)
                          | None \<Rightarrow> mon_a)))
          in (m1, mon2)))"

text \<open>
  The \<^verbatim>\<open>catch\<close> block of \<^verbatim>\<open>checkServiceHealth\<close>: reached when the fetch rejects
  and when a response is not ok (the \<^verbatim>\<open>try\<close> block throws \<^verbatim>\<open>HTTP <status>\<close>).
\<close>

definition check_failed :: "service \<Rightarrow> check_env \<Rightarrow> string \<Rightarrow> metrics \<Rightarrow> monitor \<Rightarrow> metrics \<times> monitor" where
  "check_failed svc env msg m mon =
    (let m1 = m\<lparr> status := Unhealthy, errorCount := errorCount m + 1,
                 consecutiveFailures := consecutiveFailures m + 1 \<rparr>;
         mon1 = logError (svc_name svc) msg mon
     in if consecutiveFailures m1 \<ge> 3 then
          (m1, createAlert (clock env)
                 \<lparr> a_severity = Critical, a_service = svc_name svc,
                   a_message = ''Service has failed '' @ show_int (consecutiveFailures m1)
                               @ '' consecutive health checks'',
                   a_timestamp = clock env \<rparr> mon1)
        else (m1, mon1))"

text \<open>
  \<^verbatim>\<open>responseTime.push(t)\<close> followed by the \<^verbatim>\<open>shift()\<close> that keeps the last 100.
\<close>

definition push_sample :: "int \<Rightarrow> int list \<Rightarrow> int list" where
  "push_sample t samples = (let pushed = samples @ [t] in if length pushed > 100 then tl pushed else pushed)"

text \<open>
  \<^verbatim>\<open>checkServiceHealth\<close>. The statements of the \<^verbatim>\<open>try\<close> block run in the
  source's order: the fetch is awaited first, so a rejected fetch reaches the
  \<^verbatim>\<open>catch\<close> block before \<^verbatim>\<open>totalRequests++\<close> and the push; a response of any
  status is counted and timed before \<^verbatim>\<open>response.ok\<close> is looked at. The last two
  statements (\<open>lastCheck\<close>, \<open>availability\<close>) run on every path. A service without a
  metrics object makes both blocks throw a TypeError before any write, and
  \<^verbatim>\<open>Promise.allSettled\<close> drops the rejection: the monitor is unchanged.
\<close>

definition checkServiceHealth :: "service \<Rightarrow> check_env \<Rightarrow> monitor \<Rightarrow> monitor" where
  "checkServiceHealth svc env mon =
    (case map_get (mon_metrics mon) (svc_name svc) of
       None \<Rightarrow> mon
     | Some m \<Rightarrow>
         (let (m', mon') =
                (case fetched env of
                   Rejected msg \<Rightarrow> check_failed svc env msg m mon
                 | Responded ok code \<Rightarrow>
                     (let m1 = m\<lparr> totalRequests := totalRequests m + 1,
                                  responseTime := push_sample (elapsed env) (responseTime m) \<rparr>
                      in if ok then
                           (let m2 = m1\<lparr> status := Healthy, consecutiveFailures := 0 \<rparr>
                            in if svc_type svc = ''api'' then checkApiHealth svc env m2 mon
                               else (m2, mon))
                         else check_failed svc env (''HTTP '' @ show_int code) m1 mon));
              m'' = m'\<lparr> lastCheck := Some (clock env) \<rparr>;
              m''' = m''\<lparr> availability := calculateAvailability m'' \<rparr>
          in mon'\<lparr> mon_metrics := map_set (svc_name svc) m''' (mon_metrics mon') \<rparr>))"

text \<open>
  One polling round (\<^verbatim>\<open>runHealthChecks\<close> of the monitor): every configured service
  is checked, each against its own network outcome. The checks are started together and
  write disjoint metrics objects; they are run here in configuration order.
\<close>

definition monitor_runHealthChecks :: "(string \<Rightarrow> check_env) \<Rightarrow> monitor \<Rightarrow> monitor" where
  "monitor_runHealthChecks net mon =
    fold (\<lambda>svc. checkServiceHealth svc (net (svc_name svc))) (mon_services mon) mon"

text \<open>Any number of rounds, one network per round.\<close>

definition monitor_rounds :: "(string \<Rightarrow> check_env) list \<Rightarrow> monitor \<Rightarrow> monitor" where
  "monitor_rounds nets mon = fold monitor_runHealthChecks nets mon"

subsection \<open>Aggregate health\<close>

record overall_health =
  oh_status :: overall_status
  servicesOnline :: nat
  avgAvailability :: real
  oh_totalRequests :: int
  oh_totalErrors :: int

text \<open>
  \<^verbatim>\<open>calculateOverallHealth\<close>: the four sums over the metrics map, then the three
  assignments to \<^verbatim>\<open>status\<close> in the source's order.
\<close>

definition calculateOverallHealth :: "monitor \<Rightarrow> overall_health" where
  "calculateOverallHealth mon =
    (let ms = map snd (mon_metrics mon);
         online = length (filter (\<lambda>m. status m = Healthy) ms);
         totalAvailability = sum_list (map availability ms);
         total = sum_list (map totalRequests ms);
         totalErrs = sum_list (map errorCount ms);
         sz = length ms;
         avgAvail = (totalAvailability / real sz) * 100;
         overallErrorRate = (if total > 0 then real_of_int totalErrs / real_of_int total else 0);
         s0 = O_healthy;
         s1 = (if online < sz then O_degraded else s0);
         s2 = (if real online < real sz * (1 / 2) then O_critical else s1);
         s3 = (if overallErrorRate > thr_errorRate (mon_thresholds mon) then O_degraded else s2)
     in \<lparr> oh_status = s3, servicesOnline = online, avgAvailability = avgAvail,
          oh_totalRequests = total, oh_totalErrors = totalErrs \<rparr>)"

section \<open>Deployment orchestrator (scripts/deploy-orchestrator.js)\<close>

subsection \<open>Data\<close>

text \<open>
  The configuration: \<open>cfg_services\<close> is \<^verbatim>\<open>Object.entries(config.services)\<close>, the
  services in declaration order. Fields the orchestrator never reads (dependencies, the
  deployment timeout) are left out.
\<close>

record serviceConfig =
  enabled :: bool
  healthCheck :: string
  port :: "int option"

record deploymentConfig =
  strategy :: string
  healthCheckRetries :: nat
  healthCheckInterval :: nat

record config =
  cfg_services :: "(string \<times> serviceConfig) list"
  cfg_deployment :: deploymentConfig
  cfg_notifications :: notifications

datatype deploy_status = Deployed | Failed

record service_entry =
  se_status :: deploy_status
  se_timestamp :: int
  se_version :: "string option"
  se_error :: "string option"

record deploymentState =
  phase :: string
  currentStep :: nat
  totalSteps :: nat
  services :: "(string \<times> service_entry) list"
  rollbackPlan :: "string list"

text \<open>
  What the orchestrator does to the outside: the calls of \<^verbatim>\<open>rollback\<close> and
  \<^verbatim>\<open>rollbackService\<close>, and the deployment records written to disk.
\<close>

datatype effect =
  RollbackCalled
  | ServiceRolledBack string
  | SuccessRecordWritten
  | FailureRecordWritten string

text \<open>
  The orchestrator object. \<open>logs\<close> holds level and message of each entry.
  \<open>history\<close> lists the values \<^verbatim>\<open>deploymentState\<close> takes, one per assignment to
  one of its fields, oldest first.
\<close>

record orchestrator =
  environment :: string
  orc_config :: config
  logs :: "(string \<times> string) list"
  deploymentState :: deploymentState
  history :: "deploymentState list"
  effects :: "effect list"

text \<open>
  What the machine and the network do during one run. A step that only shells out or
  calls the network is given by its outcome: \<open>None\<close> when it returns, \<open>Some msg\<close>
  when it throws an error with that message (the log lines such a step writes are not
  kept). \<open>healthCheckService_throws w n k\<close> is the outcome of the \<open>k\<close>-th call of
  \<^verbatim>\<open>healthCheckService\<close> for service \<open>n\<close>, counted from 1.
\<close>

record world =
  validateEnvironment_throws :: "string option"
  runPreDeploymentChecks_throws :: "string option"
  deployBackend_throws :: "string option"
  deployFrontend_throws :: "string option"
  getServiceVersion :: "string \<Rightarrow> string"
  healthCheckService_throws :: "string \<Rightarrow> nat \<Rightarrow> string option"
  runSmokeTests_throws :: "string option"
  runPostDeploymentTasks_throws :: "string option"
  time_now :: int

subsection \<open>Construction\<close>

definition default_config :: config where
  "default_config =
    \<lparr> cfg_services =
        [(''backend'', \<lparr> enabled = True, healthCheck = ''/health'', port = Some 3000 \<rparr>),
         (''frontend'', \<lparr> enabled = True, healthCheck = ''/'', port = None \<rparr>)],
      cfg_deployment = \<lparr> strategy = ''rolling'', healthCheckRetries = 5, healthCheckInterval = 10000 \<rparr>,
      cfg_notifications = \<lparr> slack = False, email = False, webhook = False \<rparr> \<rparr>"

text \<open>
  What \<^verbatim>\<open>loadConfig\<close> finds at \<^verbatim>\<open>config/deploy-<environment>.json\<close>: no file,
  a file that parses to a configuration, or a file that cannot be read or parsed.
\<close>

datatype config_file = NoFile | ParsedFile config | UnreadableFile

text \<open>
  \<^verbatim>\<open>loadConfig\<close>: the parsed file when it exists, the defaults when there is none.
  When reading or parsing throws, the \<^verbatim>\<open>catch\<close> block calls \<^verbatim>\<open>this.log\<close>; the
  constructor assigns \<^verbatim>\<open>this.logs\<close> only after \<^verbatim>\<open>loadConfig\<close> has returned, so
  \<^verbatim>\<open>this.logs.push\<close> throws a TypeError, which leaves \<^verbatim>\<open>loadConfig\<close> and the
  constructor. \<open>Inl\<close> carries the message of the error thrown.
\<close>

definition loadConfig :: "config_file \<Rightarrow> string + config" where
  "loadConfig file =
    (case file of
       ParsedFile c \<Rightarrow> Inr c
     | UnreadableFile \<Rightarrow> Inl ''Cannot read properties of undefined (reading push)''
     | NoFile \<Rightarrow> Inr default_config)"

text \<open>
  The constructor. It throws what \<^verbatim>\<open>loadConfig\<close> throws; otherwise the new
  orchestrator has no log entries and the initial deployment state.
\<close>

definition DeploymentOrchestrator :: "string \<Rightarrow> config_file \<Rightarrow> string + orchestrator" where
  "DeploymentOrchestrator env file =
    (case loadConfig file of
       Inl error \<Rightarrow> Inl error
     | Inr cfg \<Rightarrow>
         (let ds = \<lparr> phase = ''initialized'', currentStep = 0, totalSteps = 0, services = [],
                      rollbackPlan = [] \<rparr>
          in Inr \<lparr> environment = env, orc_config = cfg, logs = [],
                   deploymentState = ds, history = [ds], effects = [] \<rparr>))"

definition orc_log :: "string \<Rightarrow> string \<Rightarrow> orchestrator \<Rightarrow> orchestrator" where
  "orc_log lvl msg orc = orc\<lparr> logs := logs orc @ [(lvl, msg)] \<rparr>"

definition set_state :: "(deploymentState \<Rightarrow> deploymentState) \<Rightarrow> orchestrator \<Rightarrow> orchestrator" where
  "set_state f orc =
    (let ds = f (deploymentState orc) in orc\<lparr> deploymentState := ds, history := history orc @ [ds] \<rparr>)"

definition add_effect :: "effect \<Rightarrow> orchestrator \<Rightarrow> orchestrator" where
  "add_effect e orc = orc\<lparr> effects := effects orc @ [e] \<rparr>"

subsection \<open>Deploying the services\<close>

definition deployService :: "world \<Rightarrow> string \<Rightarrow> string option" where
  "deployService w serviceName =
    (if serviceName = ''backend'' then deployBackend_throws w
     else if serviceName = ''frontend'' then deployFrontend_throws w
     else Some (''Unknown service: '' @ serviceName))"

text \<open>
  The \<^verbatim>\<open>for\<close> loop of \<^verbatim>\<open>deployServices\<close>: a disabled service is skipped; a
  deployed one is recorded with status deployed; the first failure is recorded with
  status failed and ends the loop with an error.
\<close>

fun deployServices_loop ::
  "world \<Rightarrow> (string \<times> serviceConfig) list \<Rightarrow> orchestrator \<Rightarrow> string option \<times> orchestrator" where
  "deployServices_loop w [] orc = (None, orc)"
| "deployServices_loop w ((serviceName, serviceConfig) # rest) orc =
    (if \<not> enabled serviceConfig then
       deployServices_loop w rest (orc_log ''info'' (''Skipping disabled service: '' @ serviceName) orc)
     else
       (let orc1 = orc_log ''info'' (''Deploying service: '' @ serviceName) orc
        in case deployService w serviceName of
             None \<Rightarrow>
               deployServices_loop w rest
                 (orc_log ''success'' (''Service '' @ serviceName @ '' deployed successfully'')
                   (set_state (\<lambda>ds. ds\<lparr> services := map_set serviceName
                        \<lparr> se_status = Deployed, se_timestamp = time_now w,
                          se_version = Some (getServiceVersion w serviceName), se_error = None \<rparr>
                        (services ds) \<rparr>) orc1))
           | Some msg \<Rightarrow>
               (Some (''Failed to deploy '' @ serviceName @ '': '' @ msg),
                set_state (\<lambda>ds. ds\<lparr> services := map_set serviceName
                     \<lparr> se_status = Failed, se_timestamp = time_now w,
                       se_version = None, se_error = Some msg \<rparr>
                     (services ds) \<rparr>) orc1)))"

definition deployServices :: "world \<Rightarrow> orchestrator \<Rightarrow> string option \<times> orchestrator" where
  "deployServices w orc =
    (let orc1 = orc_log ''info'' ''Deploying services'' orc;
         (r, orc2) = deployServices_loop w (cfg_services (orc_config orc1)) orc1
     in case r of
          None \<Rightarrow> (None, orc_log ''success'' ''All services deployed'' orc2)
        | Some e \<Rightarrow> (Some e, orc2))"

subsection \<open>Health checks with retries\<close>

text \<open>
  The \<^verbatim>\<open>while (attempts < maxAttempts)\<close> loop of \<^verbatim>\<open>runHealthChecks\<close> for one
  service: \<^verbatim>\<open>attempts++\<close>, then the check; success leaves the loop, a failure on the
  last attempt throws, any other failure waits and goes round again.
\<close>

function attempt_loop ::
  "world \<Rightarrow> string \<Rightarrow> nat \<Rightarrow> nat \<Rightarrow> orchestrator \<Rightarrow> string option \<times> orchestrator" where
  "attempt_loop w serviceName maxAttempts attempts orc =
    (if attempts < maxAttempts then
       (let attempts1 = attempts + 1
        in case healthCheckService_throws w serviceName attempts1 of
             None \<Rightarrow> (None, orc_log ''success'' (''Health check passed for '' @ serviceName) orc)
           | Some msg \<Rightarrow>
               (let orc1 = orc_log ''warn''
                      (''Health check attempt '' @ show_nat attempts1 @ ''/'' @ show_nat maxAttempts
                        @ '' failed for '' @ serviceName @ '': '' @ msg) orc
                in if attempts1 = maxAttempts then
                     (Some (''Health check failed for '' @ serviceName @ '' after ''
                            @ show_nat maxAttempts @ '' attempts''), orc1)
                   else attempt_loop w serviceName maxAttempts attempts1 orc1))
     else (None, orc))"
  by pat_completeness auto
termination
  by (relation "measure (\<lambda>(w, n, maxAttempts, attempts, orc). maxAttempts - attempts)") auto

declare attempt_loop.simps [simp del]

text \<open>
  The \<^verbatim>\<open>for\<close> loop over the recorded services. A recorded service that the
  configuration does not list makes \<^verbatim>\<open>serviceConfig.enabled\<close> throw a TypeError.
\<close>

fun runHealthChecks_loop ::
  "world \<Rightarrow> string list \<Rightarrow> orchestrator \<Rightarrow> string option \<times> orchestrator" where
  "runHealthChecks_loop w [] orc = (None, orc)"
| "runHealthChecks_loop w (serviceName # rest) orc =
    (case map_get (cfg_services (orc_config orc)) serviceName of
       None \<Rightarrow> (Some ''Cannot read properties of undefined (reading enabled)'', orc)
     | Some serviceConfig \<Rightarrow>
         (if \<not> enabled serviceConfig then runHealthChecks_loop w rest orc
          else
            (let orc1 = orc_log ''info'' (''Health checking service: '' @ serviceName) orc;
                 maxAttempts = healthCheckRetries (cfg_deployment (orc_config orc1));
                 (r, orc2) = attempt_loop w serviceName maxAttempts 0 orc1
             in case r of
                  None \<Rightarrow> runHealthChecks_loop w rest orc2
                | Some e \<Rightarrow> (Some e, orc2))))"

definition runHealthChecks :: "world \<Rightarrow> orchestrator \<Rightarrow> string option \<times> orchestrator" where
  "runHealthChecks w orc =
    (let orc1 = orc_log ''info'' ''Running health checks'' orc;
         (r, orc2) = runHealthChecks_loop w (map_keys (services (deploymentState orc1))) orc1
     in case r of
          None \<Rightarrow> (None, orc_log ''success'' ''All health checks passed'' orc2)
        | Some e \<Rightarrow> (Some e, orc2))"

subsection \<open>The other steps\<close>

definition validateEnvironment :: "world \<Rightarrow> orchestrator \<Rightarrow> string option \<times> orchestrator" where
  "validateEnvironment w orc = (validateEnvironment_throws w, orc)"

definition runPreDeploymentChecks :: "world \<Rightarrow> orchestrator \<Rightarrow> string option \<times> orchestrator" where
  "runPreDeploymentChecks w orc = (runPreDeploymentChecks_throws w, orc)"

definition runSmokeTests :: "world \<Rightarrow> orchestrator \<Rightarrow> string option \<times> orchestrator" where
  "runSmokeTests w orc = (runSmokeTests_throws w, orc)"

text \<open>\<^verbatim>\<open>updateTrafficRouting\<close> only logs, for either strategy.\<close>

definition updateTrafficRouting :: "orchestrator \<Rightarrow> string option \<times> orchestrator" where
  "updateTrafficRouting orc =
    (let orc1 = orc_log ''info'' ''Updating traffic routing'' orc;
         orc2 = (if strategy (cfg_deployment (orc_config orc1)) = ''blue-green'' then
                   orc_log ''success'' ''Blue-green switch completed''
                     (orc_log ''info'' ''Performing blue-green deployment switch'' orc1)
                 else orc_log ''info''
                        ''Using rolling deployment - traffic routing handled automatically'' orc1)
     in (None, orc_log ''success'' ''Traffic routing updated'' orc2))"

text \<open>
  \<^verbatim>\<open>runPostDeploymentTasks\<close> ends by writing the success record; it throws when a
  write to disk does.
\<close>

definition runPostDeploymentTasks :: "world \<Rightarrow> orchestrator \<Rightarrow> string option \<times> orchestrator" where
  "runPostDeploymentTasks w orc =
    (case runPostDeploymentTasks_throws w of
       None \<Rightarrow> (None, orc_log ''success'' ''Post-deployment tasks completed''
                        (add_effect SuccessRecordWritten orc))
     | Some msg \<Rightarrow> (Some msg, orc))"

subsection \<open>Rollback\<close>

definition rollbackService :: "string \<Rightarrow> orchestrator \<Rightarrow> orchestrator" where
  "rollbackService serviceName orc =
    orc_log ''success'' (''Service '' @ serviceName @ '' rolled back'')
      (add_effect (ServiceRolledBack serviceName) orc)"

text \<open>
  The loop of \<^verbatim>\<open>rollback\<close> over the reversed keys. \<^verbatim>\<open>service.status\<close> on a key
  without an entry would throw a TypeError inside the \<^verbatim>\<open>try\<close> block.
\<close>

fun rollback_loop :: "string list \<Rightarrow> orchestrator \<Rightarrow> string option \<times> orchestrator" where
  "rollback_loop [] orc = (None, orc)"
| "rollback_loop (serviceName # rest) orc =
    (case map_get (services (deploymentState orc)) serviceName of
       None \<Rightarrow> (Some ''Cannot read properties of undefined (reading status)'', orc)
     | Some service \<Rightarrow>
         (if se_status service = Deployed then
            rollback_loop rest
              (rollbackService serviceName (orc_log ''info'' (''Rolling back service: '' @ serviceName) orc))
          else rollback_loop rest orc))"

definition rollback :: "orchestrator \<Rightarrow> string option \<times> orchestrator" where
  "rollback orc =
    (let orc1 = orc_log ''warn'' ''Initiating rollback procedure'' (add_effect RollbackCalled orc);
         (r, orc2) = rollback_loop (rev (map_keys (services (deploymentState orc1)))) orc1
     in case r of
          None \<Rightarrow> (None, orc_log ''success'' ''Rollback completed successfully'' orc2)
        | Some rollbackError \<Rightarrow>
            (Some ''Both deployment and rollback failed. Manual intervention required.'',
             orc_log ''error'' (''Rollback failed: '' @ rollbackError) orc2))"

text \<open>
  \<^verbatim>\<open>handleDeploymentFailure(error, failedStep)\<close>, with \<open>failedStep\<close> the 0-based
  index of the loop. Its result is the error \<^verbatim>\<open>rollback\<close> throws, if any.
\<close>

definition handleDeploymentFailure :: "string \<Rightarrow> nat \<Rightarrow> orchestrator \<Rightarrow> string option \<times> orchestrator" where
  "handleDeploymentFailure error failedStep orc =
    (let orc1 = orc_log ''error''
           (''Deployment failed at step '' @ show_nat (failedStep + 1) @ '': '' @ error) orc
     in if failedStep \<ge> 2 then rollback orc1 else (None, orc1))"

subsection \<open>The pipeline\<close>

definition steps :: "world \<Rightarrow> (orchestrator \<Rightarrow> string option \<times> orchestrator) list" where
  "steps w =
    [validateEnvironment w, runPreDeploymentChecks w, deployServices w, runHealthChecks w,
     runSmokeTests w, updateTrafficRouting, runPostDeploymentTasks w]"

text \<open>
  The \<^verbatim>\<open>for\<close> loop of \<^verbatim>\<open>deploy\<close> from index \<open>i\<close> on. The closures of the
  \<^verbatim>\<open>steps\<close> array are anonymous, so \<^verbatim>\<open>steps[i].name\<close> is the empty string.
  When a step throws, \<^verbatim>\<open>handleDeploymentFailure\<close> is awaited and then the step's
  error is thrown again; an error thrown by the handler itself takes its place.
\<close>

function deploy_loop :: "world \<Rightarrow> nat \<Rightarrow> orchestrator \<Rightarrow> string option \<times> orchestrator" where
  "deploy_loop w i orc =
    (if i < length (steps w) then
       (let orc1 = set_state (\<lambda>ds. ds\<lparr> currentStep := i + 1 \<rparr>) orc;
            orc2 = orc_log ''info''
                     (''Step '' @ show_nat (i + 1) @ ''/'' @ show_nat (length (steps w)) @ '': '') orc1;
            (r, orc3) = (steps w ! i) orc2
        in case r of
             None \<Rightarrow>
               deploy_loop w (i + 1)
                 (orc_log ''success'' (''Step '' @ show_nat (i + 1) @ '' completed successfully'') orc3)
           | Some error \<Rightarrow>
               (let orc4 = orc_log ''error'' (''Step '' @ show_nat (i + 1) @ '' failed: '' @ error) orc3;
                    (r2, orc5) = handleDeploymentFailure error i orc4
                in case r2 of
                     None \<Rightarrow> (Some error, orc5)
                   | Some handlerError \<Rightarrow> (Some handlerError, orc5)))
     else (None, orc))"
  by pat_completeness auto
termination
  by (relation "measure (\<lambda>(w, i, orc). length (steps w) - i)") auto

declare deploy_loop.simps [simp del]

definition deploymentSuccess :: "orchestrator \<Rightarrow> orchestrator" where
  "deploymentSuccess orc = orc_log ''success'' ''Deployment completed successfully!'' orc"

definition createFailureRecord :: "string \<Rightarrow> orchestrator \<Rightarrow> orchestrator" where
  "createFailureRecord error orc =
    orc_log ''info'' ''Failure record saved'' (add_effect (FailureRecordWritten error) orc)"

definition deploymentFailure :: "string \<Rightarrow> orchestrator \<Rightarrow> orchestrator" where
  "deploymentFailure error orc =
    createFailureRecord error (orc_log ''error'' (''Deployment failed: '' @ error) orc)"

text \<open>
  \<^verbatim>\<open>deploy\<close>: the result is \<open>None\<close> when the promise resolves and \<open>Some msg\<close> when
  it rejects with an error of that message.
\<close>

definition deploy :: "world \<Rightarrow> orchestrator \<Rightarrow> string option \<times> orchestrator" where
  "deploy w orc =
    (let orc1 = set_state (\<lambda>ds. ds\<lparr> phase := ''started'' \<rparr>) orc;
         orc2 = orc_log ''info'' (''Starting deployment to '' @ environment orc1) orc1;
         orc3 = set_state (\<lambda>ds. ds\<lparr> totalSteps := length (steps w) \<rparr>) orc2;
         (r, orc4) = deploy_loop w 0 orc3
     in case r of
          None \<Rightarrow> (None, deploymentSuccess orc4)
        | Some error \<Rightarrow> (Some error, deploymentFailure error orc4))"

subsection \<open>Command line\<close>

definition validEnvironments :: "string list" where
  "validEnvironments = [''staging'', ''production'']"

text \<open>
  The function \<^verbatim>\<open>main\<close>: what a call of it does, given
  \<^verbatim>\<open>process.argv.slice(2)\<close>, the configuration file of each environment and the
  world. \<^verbatim>\<open>args[0] || 'staging'\<close> takes the default when there is no argument and
  when the argument is the empty string. The constructor is called outside the
  \<^verbatim>\<open>try\<close> block: when it throws, the promise of \<^verbatim>\<open>main\<close> rejects, nothing handles
  the rejection and Node ends the process with exit code 1. The result is the code the
  process exits with and the orchestrator after the run, \<open>None\<close> when none was
  constructed.
\<close>

definition main :: "string list \<Rightarrow> (string \<Rightarrow> config_file) \<Rightarrow> world \<Rightarrow> nat \<times> orchestrator option" where
  "main args files w =
    (let env = (case args of [] \<Rightarrow> ''staging'' | a # _ \<Rightarrow> if a = [] then ''staging'' else a)
     in if env \<notin> set validEnvironments then (1, None)
        else
          (case DeploymentOrchestrator env (files env) of
             Inl error \<Rightarrow> (1, None)
           | Inr orchestrator \<Rightarrow>
               (let (r, orc') = deploy w orchestrator
                in case r of None \<Rightarrow> (0, Some orc') | Some error \<Rightarrow> (1, Some orc'))))"

text \<open>
  Running the file with Node. A class body is strict code, and in strict code the
  future reserved words cannot be bound. \<^verbatim>\<open>getServiceVersion\<close>, a method of the
  class, declares \<^verbatim>\<open>const packagePath\<close> and \<^verbatim>\<open>const package\<close>. A binding of a
  reserved word is an early error: Node rejects the whole file with a SyntaxError
  before it executes a statement of it, and the process exits with code 1 without
  \<^verbatim>\<open>main\<close> being called.
\<close>

definition strict_reserved_words :: "string list" where
  "strict_reserved_words =
    [''implements'', ''interface'', ''let'', ''package'', ''private'', ''protected'', ''public'',
     ''static'', ''yield'']"

definition getServiceVersion_declarations :: "string list" where
  "getServiceVersion_declarations = [''packagePath'', ''package'']"

definition script_parses :: bool where
  "script_parses = (\<not> list_ex (\<lambda>x. x \<in> set strict_reserved_words) getServiceVersion_declarations)"

definition node_script :: "string list \<Rightarrow> (string \<Rightarrow> config_file) \<Rightarrow> world \<Rightarrow> nat \<times> orchestrator option" where
  "node_script args files w = (if script_parses then main args files w else (1, None))"

section \<open>Notions used in the statements\<close>

text \<open>Every metrics object holds at most 100 response-time samples.\<close>

definition buffers_bounded :: "monitor \<Rightarrow> bool" where
  "buffers_bounded mon = list_all (\<lambda>(n, m). length (responseTime m) \<le> 100) (mon_metrics mon)"

text \<open>The services \<^verbatim>\<open>rollbackService\<close> was called for, in call order.\<close>

definition rolled_back_services :: "orchestrator \<Rightarrow> string list" where
  "rolled_back_services orc =
     concat (map (\<lambda>e. case e of ServiceRolledBack n \<Rightarrow> [n] | _ \<Rightarrow> []) (effects orc))"

text \<open>The recorded status of a service is deployed.\<close>

definition is_deployed :: "orchestrator \<Rightarrow> string \<Rightarrow> bool" where
  "is_deployed orc n =
     (case map_get (services (deploymentState orc)) n of Some s \<Rightarrow> se_status s = Deployed | None \<Rightarrow> False)"

text \<open>Two alerts agree on service and message: the key of the duplicate check.\<close>

definition same_alert :: "alert \<Rightarrow> alert \<Rightarrow> bool" where
  "same_alert a b = (a_service a = a_service b \<and> a_message a = a_message b)"

text \<open>A sequence of \<^verbatim>\<open>createAlert\<close> calls, each with the time it is made at.\<close>

definition create_all :: "(int \<times> alert) list \<Rightarrow> monitor \<Rightarrow> monitor" where
  "create_all calls mon = fold (\<lambda>(t, b). createAlert t b) calls mon"

text \<open>The alert \<open>a\<close> is in the list with at most \<open>k\<close> alerts behind it.\<close>

definition kept :: "alert \<Rightarrow> nat \<Rightarrow> alert list \<Rightarrow> bool" where
  "kept a k xs = (\<exists>pre post. xs = pre @ a # post \<and> length post \<le> k)"

text \<open>The part of the deployment state that tracks progress through the pipeline.\<close>

definition progress :: "deploymentState \<Rightarrow> string \<times> nat \<times> nat" where
  "progress ds = (phase ds, currentStep ds, totalSteps ds)"

text \<open>The history is not empty and ends with the current deployment state.\<close>

definition history_current :: "orchestrator \<Rightarrow> bool" where
  "history_current orc = (history orc \<noteq> [] \<and> last (history orc) = deploymentState orc)"

text \<open>
  What a pipeline step leaves alone: from \<open>orc\<close> to \<open>orc'\<close> the progress fields and
  the configuration are unchanged, every deployment state passed through has the same
  progress fields, the history still ends with the current state, and \<^verbatim>\<open>rollback\<close>
  has been called afterwards exactly if it had been called before.
\<close>

definition keeps_progress :: "orchestrator \<Rightarrow> orchestrator \<Rightarrow> bool" where
  "keeps_progress orc orc' =
     (progress (deploymentState orc') = progress (deploymentState orc)
      \<and> (\<exists>hs. history orc' = history orc @ hs
               \<and> list_all (\<lambda>h. progress h = progress (deploymentState orc)) hs)
      \<and> (history_current orc \<longrightarrow> history_current orc')
      \<and> orc_config orc' = orc_config orc
      \<and> (RollbackCalled \<in> set (effects orc') \<longleftrightarrow> RollbackCalled \<in> set (effects orc)))"




text \<open>
  The deployment order: the enabled services of the configuration whose deployment
  returned, in declaration order, up to the first one whose deployment threw.
\<close>

fun deployed_order :: "world \<Rightarrow> (string \<times> serviceConfig) list \<Rightarrow> string list" where
  "deployed_order w [] = []"
| "deployed_order w ((n, sc) # rest) =
    (if \<not> enabled sc then deployed_order w rest
     else case deployService w n of None \<Rightarrow> n # deployed_order w rest | Some msg \<Rightarrow> [])"

text \<open>Every one of the attempts 1 to \<open>maxAttempts\<close> of the health check of a service throws.\<close>

definition all_attempts_fail :: "world \<Rightarrow> string \<Rightarrow> nat \<Rightarrow> bool" where
  "all_attempts_fail w n maxAttempts =
     list_all (\<lambda>k. healthCheckService_throws w n k \<noteq> None) [1..<maxAttempts + 1]"

text \<open>
  The configuration lists the service as enabled; and: the service is enabled, at least
  one attempt is configured and every attempt of its health check throws.
\<close>

definition service_enabled :: "orchestrator \<Rightarrow> string \<Rightarrow> bool" where
  "service_enabled orc n =
     (case map_get (cfg_services (orc_config orc)) n of Some sc \<Rightarrow> enabled sc | None \<Rightarrow> False)"

definition exhausts :: "world \<Rightarrow> orchestrator \<Rightarrow> string \<Rightarrow> bool" where
  "exhausts w orc n =
     (service_enabled orc n \<and> 0 < healthCheckRetries (cfg_deployment (orc_config orc))
      \<and> all_attempts_fail w n (healthCheckRetries (cfg_deployment (orc_config orc))))"

text \<open>
  The state in which step \<open>i\<close> (0-based) of the loop of \<^verbatim>\<open>deploy\<close> is called, and
  the state in which the next iteration starts when the step returned in state \<open>orc\<close>.
\<close>

definition step_entered :: "world \<Rightarrow> nat \<Rightarrow> orchestrator \<Rightarrow> orchestrator" where
  "step_entered w i orc =
     orc_log ''info'' (''Step '' @ show_nat (i + 1) @ ''/'' @ show_nat (length (steps w)) @ '': '')
       (set_state (\<lambda>ds. ds\<lparr> currentStep := i + 1 \<rparr>) orc)"

definition step_completed :: "nat \<Rightarrow> orchestrator \<Rightarrow> orchestrator" where
  "step_completed i orc =
     orc_log ''success'' (''Step '' @ show_nat (i + 1) @ '' completed successfully'') orc"

text \<open>The entry the deploy phase records for a service it deployed.\<close>

definition deployed_entry :: "world \<Rightarrow> string \<Rightarrow> string \<times> service_entry" where
  "deployed_entry w n =
     (n, \<lparr> se_status = Deployed, se_timestamp = time_now w,
            se_version = Some (getServiceVersion w n), se_error = None \<rparr>)"

text \<open>The names of the services the configuration enables, in declaration order.\<close>

definition enabled_names :: "config \<Rightarrow> string list" where
  "enabled_names cfg = map fst (filter (\<lambda>(n, sc). enabled sc) (cfg_services cfg))"

subsection \<open>Concrete inputs\<close>

definition backend_service :: service where
  "backend_service = \<lparr> svc_name = ''backend'', svc_url = ''https://quest-api.railway.app'', svc_type = ''api'' \<rparr>"

definition frontend_service :: service where
  "frontend_service = \<lparr> svc_name = ''frontend'', svc_url = ''https://quest-frontend.netlify.app'', svc_type = ''web'' \<rparr>"

text \<open>A 200 response after 120 ms, a 503 response after 80 ms, and a fetch that times out.\<close>

definition env_ok :: check_env where
  "env_ok = \<lparr> fetched = Responded True 200, elapsed = 120, clock = 1000, api = ApiBody ''healthy'' None \<rparr>"

definition env_503 :: check_env where
  "env_503 = \<lparr> fetched = Responded False 503, elapsed = 80, clock = 31000, api = ApiThrows ''unreachable'' \<rparr>"

definition env_timeout :: check_env where
  "env_timeout = \<lparr> fetched = Rejected ''network timeout'', elapsed = 10000, clock = 61000,
                    api = ApiThrows ''unreachable'' \<rparr>"

text \<open>A monitor whose frontend buffer is full: the samples 1 to 100.\<close>

definition full_metrics :: metrics where
  "full_metrics = initial_metrics\<lparr> status := Healthy, responseTime := map int [1..<101], totalRequests := 100 \<rparr>"

definition full_monitor :: monitor where
  "full_monitor = default_monitor\<lparr> mon_metrics := [(''backend'', initial_metrics), (''frontend'', full_metrics)] \<rparr>"

text \<open>
  Alerts as \<^verbatim>\<open>checkServiceHealth\<close> and \<^verbatim>\<open>checkApiHealth\<close> build them: the
  third failed check of the backend at time 0, and fifty memory warnings with the
  readings 101 to 150, the \<open>i\<close>-th raised at time \<open>i\<close>.
\<close>

definition down_alert :: alert where
  "down_alert = \<lparr> a_severity = Critical, a_service = ''backend'',
      a_message = ''Service has failed 3 consecutive health checks'', a_timestamp = 0 \<rparr>"

definition memory_alert :: "nat \<Rightarrow> alert" where
  "memory_alert i = \<lparr> a_severity = Warning, a_service = ''backend'',
      a_message = ''High memory usage: '' @ show_nat i @ ''MB'', a_timestamp = int i \<rparr>"

definition fifty_alerts :: "(int \<times> alert) list" where
  "fifty_alerts = map (\<lambda>i. (int i, memory_alert i)) [101..<151]"

text \<open>The orchestrator the constructor builds for \<^verbatim>\<open>staging\<close> when there is no configuration file.\<close>

definition staging_orchestrator :: orchestrator where
  "staging_orchestrator =
     \<lparr> environment = ''staging'', orc_config = default_config, logs = [],
       deploymentState = \<lparr> phase = ''initialized'', currentStep = 0, totalSteps = 0, services = [],
                            rollbackPlan = [] \<rparr>,
       history = [\<lparr> phase = ''initialized'', currentStep = 0, totalSteps = 0, services = [],
                    rollbackPlan = [] \<rparr>],
       effects = [] \<rparr>"

text \<open>
  Worlds: one where every step succeeds; one where the frontend health check always
  answers 503 and the backend passes on its second attempt; one where the dependency
  check of the pre-deployment phase throws; one where the frontend build fails.
\<close>

definition world_ok :: world where
  "world_ok = \<lparr> validateEnvironment_throws = None, runPreDeploymentChecks_throws = None,
      deployBackend_throws = None, deployFrontend_throws = None,
      getServiceVersion = (\<lambda>n. ''1.0.0''),
      healthCheckService_throws = (\<lambda>n k. None),
      runSmokeTests_throws = None, runPostDeploymentTasks_throws = None, time_now = 0 \<rparr>"

definition world_hc_fail :: world where
  "world_hc_fail = world_ok\<lparr> healthCheckService_throws :=
      (\<lambda>n k. if n = ''frontend'' then Some ''Health check returned 503''
              else if k < 2 then Some ''Health check returned 502'' else None) \<rparr>"

definition world_pre_fail :: world where
  "world_pre_fail = world_ok\<lparr> runPreDeploymentChecks_throws := Some ''Problematic package detected: left-pad'' \<rparr>"

definition world_deploy_fail :: world where
  "world_deploy_fail = world_ok\<lparr> deployFrontend_throws := Some ''Command failed: npm run build'' \<rparr>"

section \<open>Verification: production monitor\<close>

subsection \<open>Maps and field updates\<close>


lemma map_get_map_set: "map_get (map_set k v kvs) k' = (if k' = k then Some v else map_get kvs k')"
  by (induction kvs) auto

lemma map_set_cases:
  "(k', v') \<in> set (map_set k v kvs) \<Longrightarrow> (k', v') = (k, v) \<or> (k', v') \<in> set kvs"
  by (induction kvs) (auto split: if_splits)

lemma map_get_in_set: "map_get kvs k = Some v \<Longrightarrow> (k, v) \<in> set kvs"
  by (induction kvs) (auto split: if_splits)

lemma sendAlert_fields [simp]:
  "mon_metrics (sendAlert a mon) = mon_metrics mon"
  "mon_services (sendAlert a mon) = mon_services mon"
  "mon_thresholds (sendAlert a mon) = mon_thresholds mon"
  "mon_notifications (sendAlert a mon) = mon_notifications mon"
  "alerts (sendAlert a mon) = alerts mon"
  by (simp_all add: sendAlert_def)

lemma createAlert_fields [simp]:
  "mon_metrics (createAlert now a mon) = mon_metrics mon"
  "mon_services (createAlert now a mon) = mon_services mon"
  "mon_thresholds (createAlert now a mon) = mon_thresholds mon"
  "mon_notifications (createAlert now a mon) = mon_notifications mon"
  by (simp_all add: createAlert_def Let_def)

lemma logError_fields [simp]:
  "mon_metrics (logError n msg mon) = mon_metrics mon"
  "mon_services (logError n msg mon) = mon_services mon"
  "mon_thresholds (logError n msg mon) = mon_thresholds mon"
  "mon_notifications (logError n msg mon) = mon_notifications mon"
  "alerts (logError n msg mon) = alerts mon"
  by (simp_all add: logError_def)

lemma checkApiHealth_metrics:
  "checkApiHealth svc env m mon = (m', mon') \<Longrightarrow>
     status m' = status m \<and> responseTime m' = responseTime m \<and> totalRequests m' = totalRequests m
     \<and> errorCount m' = errorCount m \<and> consecutiveFailures m' = consecutiveFailures m
     \<and> lastCheck m' = lastCheck m \<and> availability m' = availability m
     \<and> mon_metrics mon' = mon_metrics mon \<and> mon_services mon' = mon_services mon"
  by (auto simp: checkApiHealth_def Let_def split: api_result.splits option.splits if_splits)

lemma check_failed_metrics:
  "check_failed svc env msg m mon = (m', mon') \<Longrightarrow>
     status m' = Unhealthy \<and> responseTime m' = responseTime m \<and> totalRequests m' = totalRequests m
     \<and> errorCount m' = errorCount m + 1 \<and> consecutiveFailures m' = consecutiveFailures m + 1
     \<and> mon_metrics mon' = mon_metrics mon \<and> mon_services mon' = mon_services mon"
  by (auto simp: check_failed_def Let_def split: if_splits)

lemma push_sample_eq:
  "push_sample t xs = (if length xs \<ge> 100 then tl xs @ [t] else xs @ [t])"
  by (cases xs) (auto simp: push_sample_def Let_def)

lemma push_sample_length: "length xs \<le> 100 \<Longrightarrow> length (push_sample t xs) \<le> 100"
  by (auto simp: push_sample_eq)

lemma checkServiceHealth_effect:
  assumes "map_get (mon_metrics mon) (svc_name svc) = Some m"
  shows "\<exists>m'. map_get (mon_metrics (checkServiceHealth svc env mon)) (svc_name svc) = Some m'
     \<and> lastCheck m' = Some (clock env)
     \<and> availability m' = (if totalRequests m' = 0 then 1
          else real_of_int (totalRequests m' - errorCount m') / real_of_int (totalRequests m'))
     \<and> (case fetched env of
          Rejected msg \<Rightarrow>
            responseTime m' = responseTime m \<and> totalRequests m' = totalRequests m
            \<and> status m' = Unhealthy \<and> errorCount m' = errorCount m + 1
            \<and> consecutiveFailures m' = consecutiveFailures m + 1
        | Responded ok code \<Rightarrow>
            responseTime m' = push_sample (elapsed env) (responseTime m)
            \<and> totalRequests m' = totalRequests m + 1
            \<and> (if ok then status m' = Healthy \<and> consecutiveFailures m' = 0 \<and> errorCount m' = errorCount m
                else status m' = Unhealthy \<and> errorCount m' = errorCount m + 1
                     \<and> consecutiveFailures m' = consecutiveFailures m + 1))"
proof (cases "fetched env")
  case (Rejected msg)
  obtain m1 mon1 where cf: "check_failed svc env msg m mon = (m1, mon1)" by fastforce
  from check_failed_metrics[OF cf] cf Rejected assms show ?thesis
    by (simp add: checkServiceHealth_def Let_def map_get_map_set calculateAvailability_def)
next
  case (Responded ok code)
  let ?m1 = "m\<lparr> totalRequests := totalRequests m + 1,
                  responseTime := push_sample (elapsed env) (responseTime m) \<rparr>"
  show ?thesis
  proof (cases ok)
    case True
    let ?m2 = "?m1\<lparr> status := Healthy, consecutiveFailures := 0 \<rparr>"
    show ?thesis
    proof (cases "svc_type svc = ''api''")
      case api: True
      obtain m3 mon3 where ca: "checkApiHealth svc env ?m2 mon = (m3, mon3)" by fastforce
      from checkApiHealth_metrics[OF ca] ca Responded True api assms show ?thesis
        by (simp add: checkServiceHealth_def Let_def map_get_map_set calculateAvailability_def)
    next
      case False
      with Responded True assms show ?thesis
        by (simp add: checkServiceHealth_def Let_def map_get_map_set calculateAvailability_def)
    qed
  next
    case False
    obtain m3 mon3 where cf: "check_failed svc env (''HTTP '' @ show_int code) ?m1 mon = (m3, mon3)"
      by fastforce
    from check_failed_metrics[OF cf] cf Responded False assms show ?thesis
      by (simp add: checkServiceHealth_def Let_def map_get_map_set calculateAvailability_def)
  qed
qed



lemma checkServiceHealth_other:
  "mon_services (checkServiceHealth svc env mon) = mon_services mon"
proof (cases "map_get (mon_metrics mon) (svc_name svc)")
  case None then show ?thesis by (simp add: checkServiceHealth_def)
next
  case (Some m)
  show ?thesis
  proof (cases "fetched env")
    case (Rejected msg)
    obtain m1 mon1 where cf: "check_failed svc env msg m mon = (m1, mon1)" by fastforce
    from check_failed_metrics[OF cf] cf Rejected Some show ?thesis
      by (simp add: checkServiceHealth_def Let_def)
  next
    case (Responded ok code)
    let ?m1 = "m\<lparr> totalRequests := totalRequests m + 1,
                  responseTime := push_sample (elapsed env) (responseTime m) \<rparr>"
    let ?m2 = "?m1\<lparr> status := Healthy, consecutiveFailures := 0 \<rparr>"
    obtain m3 mon3 where ca: "checkApiHealth svc env ?m2 mon = (m3, mon3)" by fastforce
    obtain m4 mon4 where cf: "check_failed svc env (''HTTP '' @ show_int code) ?m1 mon = (m4, mon4)"
      by fastforce
    from checkApiHealth_metrics[OF ca] check_failed_metrics[OF cf] ca cf Responded Some show ?thesis
      by (simp add: checkServiceHealth_def Let_def)
  qed
qed

lemma checkServiceHealth_metrics_shape:
  "mon_metrics (checkServiceHealth svc env mon) =
     (case map_get (mon_metrics (checkServiceHealth svc env mon)) (svc_name svc) of
        None \<Rightarrow> mon_metrics mon
      | Some m' \<Rightarrow> (case map_get (mon_metrics mon) (svc_name svc) of None \<Rightarrow> mon_metrics mon
                    | Some m \<Rightarrow> map_set (svc_name svc) m' (mon_metrics mon)))"
proof (cases "map_get (mon_metrics mon) (svc_name svc)")
  case None then show ?thesis by (simp add: checkServiceHealth_def)
next
  case (Some m)
  show ?thesis
  proof (cases "fetched env")
    case (Rejected msg)
    obtain m1 mon1 where cf: "check_failed svc env msg m mon = (m1, mon1)" by fastforce
    from check_failed_metrics[OF cf] cf Rejected Some show ?thesis
      by (simp add: checkServiceHealth_def Let_def map_get_map_set)
  next
    case (Responded ok code)
    let ?m1 = "m\<lparr> totalRequests := totalRequests m + 1,
                  responseTime := push_sample (elapsed env) (responseTime m) \<rparr>"
    let ?m2 = "?m1\<lparr> status := Healthy, consecutiveFailures := 0 \<rparr>"
    obtain m3 mon3 where ca: "checkApiHealth svc env ?m2 mon = (m3, mon3)" by fastforce
    obtain m4 mon4 where cf: "check_failed svc env (''HTTP '' @ show_int code) ?m1 mon = (m4, mon4)"
      by fastforce
    from checkApiHealth_metrics[OF ca] check_failed_metrics[OF cf] ca cf Responded Some show ?thesis
      by (simp add: checkServiceHealth_def Let_def map_get_map_set)
  qed
qed


lemma buffers_bounded_check:
  assumes "buffers_bounded mon"
  shows "buffers_bounded (checkServiceHealth svc env mon)"
proof (cases "map_get (mon_metrics mon) (svc_name svc)")
  case None then show ?thesis using assms by (simp add: checkServiceHealth_def)
next
  case (Some m)
  from checkServiceHealth_effect[OF Some, of env] obtain m' where
    g: "map_get (mon_metrics (checkServiceHealth svc env mon)) (svc_name svc) = Some m'"
    and r: "responseTime m' = responseTime m \<or> responseTime m' = push_sample (elapsed env) (responseTime m)"
    by (cases "fetched env") auto
  from Some assms have "length (responseTime m) \<le> 100"
    by (auto simp: buffers_bounded_def list_all_iff dest: map_get_in_set)
  with r have b: "length (responseTime m') \<le> 100" by (auto simp: push_sample_length)
  have "mon_metrics (checkServiceHealth svc env mon) = map_set (svc_name svc) m' (mon_metrics mon)"
    using checkServiceHealth_metrics_shape[of svc env mon] g Some by simp
  with b assms show ?thesis
    by (auto simp: buffers_bounded_def list_all_iff dest: map_set_cases)
qed

lemma buffers_bounded_fold:
  "buffers_bounded mon \<Longrightarrow> buffers_bounded (fold (\<lambda>svc. checkServiceHealth svc (net (svc_name svc))) svcs mon)"
  by (induction svcs arbitrary: mon) (auto simp: buffers_bounded_check)

lemma buffers_bounded_rounds:
  "buffers_bounded mon \<Longrightarrow> buffers_bounded (monitor_rounds nets mon)"
  unfolding monitor_rounds_def
  by (induction nets arbitrary: mon) (auto simp: monitor_runHealthChecks_def buffers_bounded_fold)

lemma initial_metrics_fold:
  "list_all (\<lambda>(n, m). m = initial_metrics) acc \<Longrightarrow>
   list_all (\<lambda>(n, m). m = initial_metrics) (fold (\<lambda>s ms. map_set (svc_name s) initial_metrics ms) svcs acc)"
proof (induction svcs arbitrary: acc)
  case Nil then show ?case by simp
next
  case (Cons s svcs)
  have "list_all (\<lambda>(n, m). m = initial_metrics) (map_set (svc_name s) initial_metrics acc)"
    using Cons.prems by (auto simp: list_all_iff dest: map_set_cases)
  from Cons.IH[OF this] show ?case by simp
qed

lemma buffers_bounded_initial: "buffers_bounded (ProductionMonitor svcs thr notif)"
  using initial_metrics_fold[of "[]" svcs]
  by (auto simp: buffers_bounded_def ProductionMonitor_def list_all_iff initial_metrics_def)

subsection \<open>The response-time buffer\<close>

text \<open>
  Claim C7. After any number of polling rounds of a freshly constructed monitor, whatever
  the network answers, no metrics object holds more than 100 response-time samples. And
  when a check pushes a sample into a buffer that holds 100, the buffer afterwards is the
  old one without its first (oldest) sample, followed by the new sample: first in, first
  out.
\<close>

theorem responseTime_buffer_capacity:
  "buffers_bounded (monitor_rounds nets (ProductionMonitor svcs thr notif)) \<and>
   (map_get (mon_metrics mon) (svc_name svc) = Some m \<and> length (responseTime m) = 100
      \<and> fetched env = Responded ok code \<longrightarrow>
    (\<exists>m'. map_get (mon_metrics (checkServiceHealth svc env mon)) (svc_name svc) = Some m'
          \<and> responseTime m' = tl (responseTime m) @ [elapsed env]))"
proof (intro conjI impI)
  show "buffers_bounded (monitor_rounds nets (ProductionMonitor svcs thr notif))"
    by (rule buffers_bounded_rounds[OF buffers_bounded_initial])
next
  assume h: "map_get (mon_metrics mon) (svc_name svc) = Some m \<and> length (responseTime m) = 100
      \<and> fetched env = Responded ok code"
  then have g: "map_get (mon_metrics mon) (svc_name svc) = Some m" by simp
  from checkServiceHealth_effect[OF g, of env] h
  show "\<exists>m'. map_get (mon_metrics (checkServiceHealth svc env mon)) (svc_name svc) = Some m'
          \<and> responseTime m' = tl (responseTime m) @ [elapsed env]"
    by (auto simp: push_sample_eq)
qed

theorem responseTime_buffer_capacity_witness:
  "buffers_bounded (monitor_rounds [\<lambda>n. env_ok, \<lambda>n. env_503]
      (ProductionMonitor default_services default_thresholds default_notifications))
   \<and> map_get (mon_metrics full_monitor) (svc_name frontend_service) = Some full_metrics
   \<and> length (responseTime full_metrics) = 100
   \<and> fetched env_ok = Responded True 200
   \<and> (\<exists>m'. map_get (mon_metrics (checkServiceHealth frontend_service env_ok full_monitor))
               (svc_name frontend_service) = Some m'
          \<and> responseTime m' = tl (responseTime full_metrics) @ [elapsed env_ok])"
proof -
  have h: "map_get (mon_metrics full_monitor) (svc_name frontend_service) = Some full_metrics
      \<and> length (responseTime full_metrics) = 100 \<and> fetched env_ok = Responded True 200"
    by (simp add: full_monitor_def frontend_service_def full_metrics_def env_ok_def)
  from responseTime_buffer_capacity
    [of "[\<lambda>n. env_ok, \<lambda>n. env_503]" default_services default_thresholds default_notifications
        full_monitor frontend_service full_metrics env_ok True 200] h
  show ?thesis by blast
qed

subsection \<open>What one check records\<close>

text \<open>
  Claim C4 says that a response that is not 2xx records no sample. It does: the frontend
  of a fresh monitor answers 503 after 80 ms, and the check leaves the sample 80 in the
  buffer and counts the request.
\<close>

theorem sample_recorded_on_non2xx_counterexample:
  "fetched env_503 = Responded False 503
   \<and> map_get (mon_metrics default_monitor) (svc_name frontend_service) = Some initial_metrics
   \<and> responseTime initial_metrics = []
   \<and> map_get (mon_metrics (checkServiceHealth frontend_service env_503 default_monitor))
        (svc_name frontend_service)
      = Some \<lparr> status = Unhealthy, responseTime = [80], availability = 0, errorCount = 1,
               totalRequests = 1, lastCheck = Some 31000, consecutiveFailures = 1,
               deploymentHealth = DH_unknown \<rparr>"
  by (simp add: env_503_def default_monitor_def ProductionMonitor_def default_services_def
      frontend_service_def initial_metrics_def checkServiceHealth_def check_failed_def
      push_sample_def calculateAvailability_def logError_def Let_def)

text \<open>
  Claim C4, amended. A check appends its response time to the buffer (dropping the oldest
  sample of a full buffer) and counts the request whenever the fetch resolves to a
  response, 2xx or not. A 2xx response also sets the status healthy and resets
  \<open>consecutiveFailures\<close>, leaving \<open>errorCount\<close> alone; a response that is not 2xx
  sets the status unhealthy and increments \<open>errorCount\<close> and \<open>consecutiveFailures\<close>.
  Only a rejected fetch (network error, timeout) records no sample and counts no
  request: there \<open>errorCount\<close> and \<open>consecutiveFailures\<close> increment and the status
  becomes unhealthy.
\<close>

theorem checkServiceHealth_sample_recording:
  assumes "map_get (mon_metrics mon) (svc_name svc) = Some m"
  shows "\<exists>m'. map_get (mon_metrics (checkServiceHealth svc env mon)) (svc_name svc) = Some m'
     \<and> (case fetched env of
          Responded ok code \<Rightarrow>
            responseTime m' =
              (if length (responseTime m) \<ge> 100 then tl (responseTime m) else responseTime m)
              @ [elapsed env]
            \<and> totalRequests m' = totalRequests m + 1
            \<and> (if ok then status m' = Healthy \<and> consecutiveFailures m' = 0 \<and> errorCount m' = errorCount m
                else status m' = Unhealthy \<and> errorCount m' = errorCount m + 1
                     \<and> consecutiveFailures m' = consecutiveFailures m + 1)
        | Rejected msg \<Rightarrow>
            responseTime m' = responseTime m \<and> totalRequests m' = totalRequests m
            \<and> status m' = Unhealthy \<and> errorCount m' = errorCount m + 1
            \<and> consecutiveFailures m' = consecutiveFailures m + 1)"
proof -
  from checkServiceHealth_effect[OF assms, of env] obtain m' where
    g: "map_get (mon_metrics (checkServiceHealth svc env mon)) (svc_name svc) = Some m'"
    and c: "(case fetched env of
          Rejected msg \<Rightarrow>
            responseTime m' = responseTime m \<and> totalRequests m' = totalRequests m
            \<and> status m' = Unhealthy \<and> errorCount m' = errorCount m + 1
            \<and> consecutiveFailures m' = consecutiveFailures m + 1
        | Responded ok code \<Rightarrow>
            responseTime m' = push_sample (elapsed env) (responseTime m)
            \<and> totalRequests m' = totalRequests m + 1
            \<and> (if ok then status m' = Healthy \<and> consecutiveFailures m' = 0 \<and> errorCount m' = errorCount m
                else status m' = Unhealthy \<and> errorCount m' = errorCount m + 1
                     \<and> consecutiveFailures m' = consecutiveFailures m + 1))"
    by blast
  from c have "(case fetched env of
          Responded ok code \<Rightarrow>
            responseTime m' =
              (if length (responseTime m) \<ge> 100 then tl (responseTime m) else responseTime m)
              @ [elapsed env]
            \<and> totalRequests m' = totalRequests m + 1
            \<and> (if ok then status m' = Healthy \<and> consecutiveFailures m' = 0 \<and> errorCount m' = errorCount m
                else status m' = Unhealthy \<and> errorCount m' = errorCount m + 1
                     \<and> consecutiveFailures m' = consecutiveFailures m + 1)
        | Rejected msg \<Rightarrow>
            responseTime m' = responseTime m \<and> totalRequests m' = totalRequests m
            \<and> status m' = Unhealthy \<and> errorCount m' = errorCount m + 1
            \<and> consecutiveFailures m' = consecutiveFailures m + 1)"
    by (cases "fetched env") (simp_all add: push_sample_eq)
  with g show ?thesis by blast
qed

theorem checkServiceHealth_sample_recording_witness:
  "map_get (mon_metrics full_monitor) (svc_name frontend_service) = Some full_metrics
   \<and> (\<exists>m'. map_get (mon_metrics (checkServiceHealth frontend_service env_503 full_monitor))
               (svc_name frontend_service) = Some m'
        \<and> responseTime m' = tl (responseTime full_metrics) @ [80]
        \<and> totalRequests m' = 101 \<and> status m' = Unhealthy \<and> errorCount m' = 1
        \<and> consecutiveFailures m' = 1)"
proof -
  have h: "map_get (mon_metrics full_monitor) (svc_name frontend_service) = Some full_metrics"
    by (simp add: full_monitor_def frontend_service_def)
  have f: "fetched env_503 = Responded False 503" "elapsed env_503 = 80"
    by (simp_all add: env_503_def)
  have l: "length (responseTime full_metrics) = 100" "totalRequests full_metrics = 100"
    "errorCount full_metrics = 0" "consecutiveFailures full_metrics = 0"
    by (simp_all add: full_metrics_def initial_metrics_def)
  from checkServiceHealth_sample_recording[OF h, of env_503] h f l show ?thesis by simp
qed

subsection \<open>Availability\<close>

text \<open>
  Claim C1 at two inputs. A first check whose fetch times out: one request, one error,
  and the availability is 1, not 0, because \<open>totalRequests\<close> is still 0. A 200
  response followed by two timeouts: three requests, two errors, and the availability
  is \<open>-1\<close>, not 1/3, because \<open>errorCount\<close> is 2 and \<open>totalRequests\<close> is 1.
\<close>

theorem availability_after_rejected_fetches:
  "map_get (mon_metrics (checkServiceHealth frontend_service env_timeout default_monitor))
        (svc_name frontend_service)
      = Some \<lparr> status = Unhealthy, responseTime = [], availability = 1, errorCount = 1,
               totalRequests = 0, lastCheck = Some 61000, consecutiveFailures = 1,
               deploymentHealth = DH_unknown \<rparr>
   \<and> map_get (mon_metrics (checkServiceHealth frontend_service env_timeout
                  (checkServiceHealth frontend_service env_timeout
                    (checkServiceHealth frontend_service env_ok default_monitor))))
        (svc_name frontend_service)
      = Some \<lparr> status = Unhealthy, responseTime = [120], availability = - 1, errorCount = 2,
               totalRequests = 1, lastCheck = Some 61000, consecutiveFailures = 2,
               deploymentHealth = DH_unknown \<rparr>"
  by (simp add: env_timeout_def env_ok_def default_monitor_def ProductionMonitor_def default_services_def
      frontend_service_def initial_metrics_def checkServiceHealth_def check_failed_def
      push_sample_def calculateAvailability_def logError_def Let_def)

subsection \<open>Aggregate health\<close>

text \<open>
  Claim C2 at one input. Both services of the default monitor answer 503 in the first
  round: none of the two is healthy, the overall error rate is 2/2, and the
  classification is degraded, not critical. The assignment for the error rate comes
  last and overwrites the critical status.
\<close>

theorem overall_health_degraded_with_no_service_healthy:
  "calculateOverallHealth (monitor_runHealthChecks (\<lambda>n. env_503) default_monitor)
     = \<lparr> oh_status = O_degraded, servicesOnline = 0, avgAvailability = 0,
         oh_totalRequests = 2, oh_totalErrors = 2 \<rparr>"
  by (simp add: env_503_def default_monitor_def ProductionMonitor_def default_services_def
      default_thresholds_def monitor_runHealthChecks_def
      initial_metrics_def checkServiceHealth_def check_failed_def calculateOverallHealth_def
      push_sample_def calculateAvailability_def logError_def Let_def)

text \<open>
  The classification in general: a high error rate gives degraded whatever the number of
  healthy services; otherwise fewer than half healthy gives critical, fewer than all
  degraded, and all healthy.
\<close>

lemma calculateOverallHealth_status:
  "oh_status (calculateOverallHealth mon) =
    (let ms = map snd (mon_metrics mon);
         online = length (filter (\<lambda>m. status m = Healthy) ms);
         total = sum_list (map totalRequests ms);
         errs = sum_list (map errorCount ms)
     in if total > 0 \<and> real_of_int errs / real_of_int total > thr_errorRate (mon_thresholds mon)
           \<or> total \<le> 0 \<and> 0 > thr_errorRate (mon_thresholds mon) then O_degraded
        else if 2 * online < length ms then O_critical
        else if online < length ms then O_degraded
        else O_healthy)"
  by (auto simp: calculateOverallHealth_def Let_def)

subsection \<open>Alert deduplication\<close>

lemma isDuplicate_iff:
  "isDuplicate now a xs \<longleftrightarrow> (\<exists>x \<in> set xs. same_alert x a \<and> now - a_timestamp x < 300000)"
  by (auto simp: isDuplicate_def list_ex_iff same_alert_def)

lemma createAlert_alerts:
  "alerts (createAlert now a mon) =
     (if isDuplicate now a (alerts mon) then alerts mon
      else if length (alerts mon) \<ge> 50 then tl (alerts mon) @ [a] else alerts mon @ [a])"
  by (cases "alerts mon") (auto simp: createAlert_def sendAlert_def Let_def)

lemma createAlert_sent:
  "sent (createAlert now a mon) = (if isDuplicate now a (alerts mon) then sent mon else sent mon @ [a])"
  by (auto simp: createAlert_def sendAlert_def Let_def)

lemma createAlert_duplicate: "isDuplicate now a (alerts mon) \<Longrightarrow> createAlert now a mon = mon"
  by (simp add: createAlert_def)

lemma createAlert_length: "length (alerts mon) \<le> 50 \<Longrightarrow> length (alerts (createAlert now a mon)) \<le> 50"
  by (auto simp: createAlert_alerts)

lemma createAlert_set: "set (alerts (createAlert now a mon)) \<subseteq> insert a (set (alerts mon))"
  by (cases "alerts mon") (auto simp: createAlert_alerts dest: list.set_sel(2))

lemma kept_created:
  assumes "\<not> isDuplicate now a (alerts mon)"
  shows "kept a 0 (alerts (createAlert now a mon))"
proof (cases "length (alerts mon) \<ge> 50")
  case True
  then obtain x xs where "alerts mon = x # xs" by (cases "alerts mon") auto
  with True assms have "alerts (createAlert now a mon) = xs @ a # []"
    by (simp add: createAlert_alerts)
  then show ?thesis unfolding kept_def by blast
next
  case False
  with assms have "alerts (createAlert now a mon) = alerts mon @ a # []"
    by (simp add: createAlert_alerts)
  then show ?thesis unfolding kept_def by blast
qed

lemma kept_step:
  assumes "kept a k (alerts mon)" and "k < 49"
  shows "kept a (Suc k) (alerts (createAlert now b mon))"
proof -
  from assms(1) obtain pre post where xs: "alerts mon = pre @ a # post" and len: "length post \<le> k"
    unfolding kept_def by blast
  consider (dup) "isDuplicate now b (alerts mon)"
    | (app) "\<not> isDuplicate now b (alerts mon)" "length (alerts mon) < 50"
    | (evict) "\<not> isDuplicate now b (alerts mon)" "length (alerts mon) \<ge> 50"
    by linarith
  then show ?thesis
  proof cases
    case dup
    then have "alerts (createAlert now b mon) = pre @ a # post" by (simp add: createAlert_alerts xs)
    with len show ?thesis unfolding kept_def by (metis le_SucI)
  next
    case app
    then have "alerts (createAlert now b mon) = pre @ a # (post @ [b])"
      by (simp add: createAlert_alerts xs)
    moreover have "length (post @ [b]) \<le> Suc k" using len by simp
    ultimately show ?thesis unfolding kept_def by blast
  next
    case evict
    from evict(2) xs len assms(2) obtain p pre' where pre: "pre = p # pre'"
      by (cases pre) auto
    with evict have "alerts (createAlert now b mon) = pre' @ a # (post @ [b])"
      by (simp add: createAlert_alerts xs)
    moreover have "length (post @ [b]) \<le> Suc k" using len by simp
    ultimately show ?thesis unfolding kept_def by blast
  qed
qed

lemma kept_create_all:
  "kept a k (alerts mon) \<Longrightarrow> k + length calls \<le> 49 \<Longrightarrow>
   kept a (k + length calls) (alerts (create_all calls mon))"
proof (induction calls arbitrary: mon k)
  case Nil then show ?case by (simp add: create_all_def)
next
  case (Cons c calls)
  obtain t b where c: "c = (t, b)" by (cases c)
  from Cons.prems have "kept a (Suc k) (alerts (createAlert t b mon))"
    by (intro kept_step) auto
  from Cons.IH[OF this] Cons.prems(2) show ?case by (simp add: create_all_def c)
qed

lemma kept_in_set: "kept a k xs \<Longrightarrow> a \<in> set xs"
  by (auto simp: kept_def)

lemma create_all_set:
  "set (alerts (create_all calls mon)) \<subseteq> set (alerts mon) \<union> snd ` set calls"
proof (induction calls arbitrary: mon)
  case Nil then show ?case by (simp add: create_all_def)
next
  case (Cons c calls)
  obtain t b where c: "c = (t, b)" by (cases c)
  have "set (alerts (create_all calls (createAlert t b mon)))
          \<subseteq> set (alerts (createAlert t b mon)) \<union> snd ` set calls" by (rule Cons.IH)
  also have "\<dots> \<subseteq> insert b (set (alerts mon)) \<union> snd ` set calls"
    using createAlert_set[of t b mon] by auto
  finally show ?case by (auto simp: create_all_def c)
qed

lemma create_all_length:
  "length (alerts mon) \<le> 50 \<Longrightarrow> length (alerts (create_all calls mon)) \<le> 50"
  by (induction calls arbitrary: mon) (auto simp: create_all_def createAlert_length)

text \<open>
  Claim C6, amended. Let a call of \<^verbatim>\<open>createAlert\<close> at time \<open>t1\<close> append the alert
  \<open>a\<close> (it is not suppressed itself), let any calls follow, and let a call at time
  \<open>t2\<close> bring an alert \<open>b\<close> with the service and message of \<open>a\<close>.
  If fewer than 50 calls lie in between and \<open>t2\<close> is less than 300000 ms after the
  timestamp of \<open>a\<close>, the call changes nothing: \<open>b\<close> is neither appended nor sent.
  If \<open>t2\<close> is 300000 ms or more after that timestamp, time has not run backwards and
  no call in between brought the same service and message, \<open>b\<close> is appended at the end
  and sent, the first entry being dropped when the list already holds 50. The list never
  grows beyond 50 entries.
\<close>

theorem createAlert_suppression_window:
  assumes first_created: "\<not> isDuplicate t1 a (alerts mon)"
    and same: "same_alert a b"
    and later: "mon2 = create_all calls (createAlert t1 a mon)"
  shows "(length calls < 50 \<and> t2 - a_timestamp a < 300000 \<longrightarrow> createAlert t2 b mon2 = mon2)
     \<and> (t1 \<le> t2 \<and> 300000 \<le> t2 - a_timestamp a \<and> \<not> list_ex (\<lambda>(t, c). same_alert c a) calls \<longrightarrow>
          alerts (createAlert t2 b mon2)
            = (if length (alerts mon2) \<ge> 50 then tl (alerts mon2) else alerts mon2) @ [b]
          \<and> sent (createAlert t2 b mon2) = sent mon2 @ [b])
     \<and> (length (alerts mon) \<le> 50 \<longrightarrow> length (alerts (createAlert t2 b mon2)) \<le> 50)"
proof (intro conjI impI)
  assume h: "length calls < 50 \<and> t2 - a_timestamp a < 300000"
  have "kept a (0 + length calls) (alerts (create_all calls (createAlert t1 a mon)))"
    using h by (intro kept_create_all kept_created first_created) simp
  then have "a \<in> set (alerts mon2)" using later by (auto dest: kept_in_set)
  with same h have "isDuplicate t2 b (alerts mon2)" unfolding isDuplicate_iff by blast
  then show "createAlert t2 b mon2 = mon2" by (rule createAlert_duplicate)
next
  assume h: "t1 \<le> t2 \<and> 300000 \<le> t2 - a_timestamp a \<and> \<not> list_ex (\<lambda>(t, c). same_alert c a) calls"
  have nd: "\<not> isDuplicate t2 b (alerts mon2)"
  proof
    assume "isDuplicate t2 b (alerts mon2)"
    then obtain x where x: "x \<in> set (alerts mon2)" "same_alert x b" "t2 - a_timestamp x < 300000"
      unfolding isDuplicate_iff by blast
    from x(1) later have "x \<in> set (alerts (createAlert t1 a mon)) \<union> snd ` set calls"
      using create_all_set by blast
    then consider "x = a" | "x \<in> set (alerts mon)" | "x \<in> snd ` set calls"
      using createAlert_set[of t1 a mon] by blast
    then show False
    proof cases
      case 1 with x(3) h show False by simp
    next
      case 2
      from x(2) same have "same_alert x a" by (simp add: same_alert_def)
      with 2 first_created have "\<not> t1 - a_timestamp x < 300000" unfolding isDuplicate_iff by blast
      with x(3) h show False by simp
    next
      case 3
      from x(2) same have "same_alert x a" by (simp add: same_alert_def)
      with 3 h show False by (auto simp: list_ex_iff)
    qed
  qed
  then show "alerts (createAlert t2 b mon2)
            = (if length (alerts mon2) \<ge> 50 then tl (alerts mon2) else alerts mon2) @ [b]"
    by (simp add: createAlert_alerts)
  from nd show "sent (createAlert t2 b mon2) = sent mon2 @ [b]" by (simp add: createAlert_sent)
next
  assume "length (alerts mon) \<le> 50"
  then have "length (alerts mon2) \<le> 50" unfolding later
    by (intro create_all_length createAlert_length)
  then show "length (alerts (createAlert t2 b mon2)) \<le> 50" by (rule createAlert_length)
qed

lemma create_all_alerts:
  "alerts (create_all calls mon) =
     fold (\<lambda>(t, b) xs. if isDuplicate t b xs then xs
                          else if length xs \<ge> 50 then tl xs @ [b] else xs @ [b]) calls (alerts mon)"
  by (induction calls arbitrary: mon) (auto simp: create_all_def createAlert_alerts)

lemma fifty_alerts_evict_first:
  "fold (\<lambda>(t, b) xs. if isDuplicate t b xs then xs
                       else if length xs \<ge> 50 then tl xs @ [b] else xs @ [b]) fifty_alerts [down_alert]
     = map snd fifty_alerts"
  by (simp add: fifty_alerts_def memory_alert_def down_alert_def isDuplicate_def show_nat.simps digit_char_def)

text \<open>
  Claim C6 says that the second of any two calls with the same service and message is
  suppressed within five minutes of the first alert's timestamp. Not when fifty other
  alerts were appended in between: the alert of time 0 has then been shifted out of the
  list, and the same alert at time 151 is sent again.
\<close>

theorem createAlert_evicted_not_suppressed_counterexample:
  "\<not> isDuplicate 0 down_alert (alerts default_monitor)
   \<and> same_alert down_alert down_alert
   \<and> 151 - a_timestamp down_alert < 300000
   \<and> sent (createAlert 151 down_alert (create_all fifty_alerts (createAlert 0 down_alert default_monitor)))
       = sent (create_all fifty_alerts (createAlert 0 down_alert default_monitor)) @ [down_alert]"
proof -
  have n: "\<not> isDuplicate 0 down_alert (alerts default_monitor)"
    by (simp add: default_monitor_def ProductionMonitor_def isDuplicate_def)
  then have "alerts (createAlert 0 down_alert default_monitor) = [down_alert]"
    by (simp add: createAlert_alerts default_monitor_def ProductionMonitor_def)
  then have "alerts (create_all fifty_alerts (createAlert 0 down_alert default_monitor)) = map snd fifty_alerts"
    by (simp only: create_all_alerts fifty_alerts_evict_first)
  moreover have "\<not> isDuplicate 151 down_alert (map snd fifty_alerts)"
    by (simp add: fifty_alerts_def memory_alert_def down_alert_def isDuplicate_def)
  ultimately have "sent (createAlert 151 down_alert (create_all fifty_alerts (createAlert 0 down_alert default_monitor)))
       = sent (create_all fifty_alerts (createAlert 0 down_alert default_monitor)) @ [down_alert]"
    by (simp add: createAlert_sent)
  with n show ?thesis by (simp add: same_alert_def down_alert_def)
qed

theorem createAlert_suppression_window_witness:
  "\<not> isDuplicate 0 down_alert (alerts default_monitor)
   \<and> same_alert down_alert down_alert
   \<and> length [(120, memory_alert 120)] < 50
   \<and> 60000 - a_timestamp down_alert < 300000
   \<and> createAlert 60000 down_alert (create_all [(120, memory_alert 120)] (createAlert 0 down_alert default_monitor))
       = create_all [(120, memory_alert 120)] (createAlert 0 down_alert default_monitor)
   \<and> 300000 \<le> 300000 - a_timestamp down_alert
   \<and> \<not> list_ex (\<lambda>(t, c). same_alert c down_alert) [(120, memory_alert 120)]
   \<and> alerts (createAlert 300000 down_alert (create_all [(120, memory_alert 120)] (createAlert 0 down_alert default_monitor)))
       = [down_alert, memory_alert 120, down_alert]
   \<and> sent (createAlert 300000 down_alert (create_all [(120, memory_alert 120)] (createAlert 0 down_alert default_monitor)))
       = [down_alert, memory_alert 120, down_alert]"
proof -
  let ?calls = "[(120, memory_alert 120)]"
  let ?mon2 = "create_all ?calls (createAlert 0 down_alert default_monitor)"
  have h1: "\<not> isDuplicate 0 down_alert (alerts default_monitor)"
    by (simp add: default_monitor_def ProductionMonitor_def isDuplicate_def)
  have h2: "same_alert down_alert down_alert" by (simp add: same_alert_def)
  have h3: "length ?calls < 50 \<and> 60000 - a_timestamp down_alert < 300000"
    by (simp add: down_alert_def)
  have h4: "(0::int) \<le> 300000 \<and> 300000 \<le> 300000 - a_timestamp down_alert
      \<and> \<not> list_ex (\<lambda>(t, c). same_alert c down_alert) ?calls"
    by (simp add: down_alert_def memory_alert_def same_alert_def)
  have a2: "alerts ?mon2 = [down_alert, memory_alert 120]" "sent ?mon2 = [down_alert, memory_alert 120]"
    by (simp_all add: create_all_def createAlert_def sendAlert_def isDuplicate_def Let_def
        default_monitor_def ProductionMonitor_def down_alert_def memory_alert_def)
  from createAlert_suppression_window[OF h1 h2 refl, of ?calls 60000] h3
  have c1: "createAlert 60000 down_alert ?mon2 = ?mon2" by blast
  from createAlert_suppression_window[OF h1 h2 refl, of ?calls 300000] h4
  have c2: "alerts (createAlert 300000 down_alert ?mon2)
            = (if length (alerts ?mon2) \<ge> 50 then tl (alerts ?mon2) else alerts ?mon2) @ [down_alert]
          \<and> sent (createAlert 300000 down_alert ?mon2) = sent ?mon2 @ [down_alert]" by blast
  from c2 have c3: "alerts (createAlert 300000 down_alert ?mon2) = [down_alert, memory_alert 120, down_alert]"
    "sent (createAlert 300000 down_alert ?mon2) = [down_alert, memory_alert 120, down_alert]"
    by (simp_all add: a2)
  from h1 h2 h3 h4 c1 c3 show ?thesis by simp
qed

section \<open>Verification: deployment orchestrator\<close>

subsection \<open>Evaluation and field updates\<close>

lemma digit_char_simps:
  "digit_char 0 = CHR ''0''" "digit_char 1 = CHR ''1''" "digit_char 2 = CHR ''2''"
  "digit_char 3 = CHR ''3''" "digit_char 4 = CHR ''4''" "digit_char 5 = CHR ''5''"
  "digit_char 6 = CHR ''6''" "digit_char 7 = CHR ''7''" "digit_char 8 = CHR ''8''"
  "digit_char 9 = CHR ''9''" "digit_char (Suc 0) = CHR ''1''"
  by (simp_all add: digit_char_def char_of_def bit_Suc_0_iff)

lemmas orc_eval = deploy_def deploy_loop.simps steps_def staging_orchestrator_def
  default_config_def validateEnvironment_def runPreDeploymentChecks_def deployServices_def
  deployService_def runHealthChecks_def attempt_loop.simps runSmokeTests_def
  updateTrafficRouting_def runPostDeploymentTasks_def handleDeploymentFailure_def rollback_def
  rollbackService_def deploymentSuccess_def deploymentFailure_def createFailureRecord_def
  orc_log_def set_state_def add_effect_def map_keys_def show_nat.simps digit_char_simps Let_def
  world_ok_def world_hc_fail_def world_pre_fail_def world_deploy_fail_def

lemma orc_log_fields [simp]:
  "deploymentState (orc_log l m orc) = deploymentState orc"
  "history (orc_log l m orc) = history orc"
  "effects (orc_log l m orc) = effects orc"
  "orc_config (orc_log l m orc) = orc_config orc"
  "environment (orc_log l m orc) = environment orc"
  by (simp_all add: orc_log_def)

lemma add_effect_fields [simp]:
  "deploymentState (add_effect e orc) = deploymentState orc"
  "history (add_effect e orc) = history orc"
  "effects (add_effect e orc) = effects orc @ [e]"
  "orc_config (add_effect e orc) = orc_config orc"
  "environment (add_effect e orc) = environment orc"
  by (simp_all add: add_effect_def)

lemma set_state_fields [simp]:
  "deploymentState (set_state f orc) = f (deploymentState orc)"
  "history (set_state f orc) = history orc @ [f (deploymentState orc)]"
  "effects (set_state f orc) = effects orc"
  "orc_config (set_state f orc) = orc_config orc"
  "environment (set_state f orc) = environment orc"
  by (simp_all add: set_state_def Let_def)

lemma map_get_None_iff: "map_get kvs k = None \<longleftrightarrow> k \<notin> fst ` set kvs"
  by (induction kvs) (auto split: if_splits)

lemma map_get_distinct:
  "distinct (map fst kvs) \<Longrightarrow> (k, v) \<in> set kvs \<Longrightarrow> map_get kvs k = Some v"
  by (induction kvs) (auto simp: rev_image_eqI)

lemma map_set_fresh: "k \<notin> fst ` set kvs \<Longrightarrow> map_set k v kvs = kvs @ [(k, v)]"
  by (induction kvs) auto

subsection \<open>Steps keep the progress fields\<close>

lemma keeps_progress_refl: "keeps_progress orc orc"
  by (simp add: keeps_progress_def)

lemma keeps_progress_trans:
  assumes "keeps_progress a b" and "keeps_progress b c"
  shows "keeps_progress a c"
proof -
  from assms(1) obtain hs where hs: "history b = history a @ hs"
    "list_all (\<lambda>h. progress h = progress (deploymentState a)) hs"
    and pb: "progress (deploymentState b) = progress (deploymentState a)"
    unfolding keeps_progress_def by blast
  from assms(2) obtain hs' where hs': "history c = history b @ hs'"
    "list_all (\<lambda>h. progress h = progress (deploymentState b)) hs'"
    unfolding keeps_progress_def by blast
  have 1: "history c = history a @ (hs @ hs')" using hs hs' by simp
  have 2: "list_all (\<lambda>h. progress h = progress (deploymentState a)) (hs @ hs')"
    using hs hs' pb by simp
  from 1 2 have "\<exists>hs. history c = history a @ hs
      \<and> list_all (\<lambda>h. progress h = progress (deploymentState a)) hs" by blast
  with assms show ?thesis unfolding keeps_progress_def by simp
qed

lemma keeps_progress_log: "keeps_progress orc (orc_log l m orc)"
  by (simp add: keeps_progress_def history_current_def)

lemma keeps_progress_log_after: "keeps_progress orc orc' \<Longrightarrow> keeps_progress orc (orc_log l m orc')"
  by (simp add: keeps_progress_def history_current_def)

lemma keeps_progress_log_before: "keeps_progress (orc_log l m orc) orc' \<Longrightarrow> keeps_progress orc orc'"
  by (simp add: keeps_progress_def history_current_def)

lemma keeps_progress_services:
  "keeps_progress orc (set_state (\<lambda>ds. ds\<lparr> services := f ds \<rparr>) orc)"
  by (simp add: keeps_progress_def history_current_def progress_def)

lemma keeps_progress_success_record: "keeps_progress orc (add_effect SuccessRecordWritten orc)"
  by (simp add: keeps_progress_def history_current_def)

lemma deployServices_loop_keeps:
  "deployServices_loop w cs orc = (r, orc') \<Longrightarrow> keeps_progress orc orc'"
proof (induction cs arbitrary: orc)
  case Nil then show ?case by (simp add: keeps_progress_refl)
next
  case (Cons c cs)
  obtain n sc where c: "c = (n, sc)" by (cases c)
  show ?case
  proof (cases "enabled sc")
    case False
    with Cons.prems c have "deployServices_loop w cs
        (orc_log ''info'' (''Skipping disabled service: '' @ n) orc) = (r, orc')" by simp
    from Cons.IH[OF this] show ?thesis by (rule keeps_progress_log_before)
  next
    case True
    let ?o1 = "orc_log ''info'' (''Deploying service: '' @ n) orc"
    show ?thesis
    proof (cases "deployService w n")
      case None
      let ?o2 = "set_state (\<lambda>ds. ds\<lparr> services := map_set n
                        \<lparr> se_status = Deployed, se_timestamp = time_now w,
                          se_version = Some (getServiceVersion w n), se_error = None \<rparr>
                        (services ds) \<rparr>) ?o1"
      from Cons.prems c True None have
        "deployServices_loop w cs (orc_log ''success'' (''Service '' @ n @ '' deployed successfully'') ?o2) = (r, orc')"
        by simp
      from Cons.IH[OF this] have "keeps_progress ?o2 orc'" by (rule keeps_progress_log_before)
      with keeps_progress_services[of ?o1] have "keeps_progress ?o1 orc'"
        by (rule keeps_progress_trans)
      then show ?thesis by (rule keeps_progress_log_before)
    next
      case (Some msg)
      with Cons.prems c True have "orc' = set_state (\<lambda>ds. ds\<lparr> services := map_set n
                     \<lparr> se_status = Failed, se_timestamp = time_now w,
                       se_version = None, se_error = Some msg \<rparr>
                     (services ds) \<rparr>) ?o1" by simp
      with keeps_progress_services[of ?o1] have "keeps_progress ?o1 orc'" by simp
      then show ?thesis by (rule keeps_progress_log_before)
    qed
  qed
qed

lemma deployServices_keeps: "deployServices w orc = (r, orc') \<Longrightarrow> keeps_progress orc orc'"
proof -
  assume a: "deployServices w orc = (r, orc')"
  let ?o1 = "orc_log ''info'' ''Deploying services'' orc"
  obtain r2 o2 where l: "deployServices_loop w (cfg_services (orc_config ?o1)) ?o1 = (r2, o2)"
    by fastforce
  from deployServices_loop_keeps[OF l] have k: "keeps_progress orc o2"
    by (rule keeps_progress_log_before)
  from a l have "orc' = o2 \<or> orc' = orc_log ''success'' ''All services deployed'' o2"
    by (auto simp: deployServices_def Let_def split: option.splits)
  with k show ?thesis by (auto intro: keeps_progress_log_after)
qed

lemma attempt_loop_only_logs:
  "attempt_loop w n mx a orc = (r, orc') \<Longrightarrow>
     deploymentState orc' = deploymentState orc \<and> history orc' = history orc
     \<and> effects orc' = effects orc \<and> orc_config orc' = orc_config orc"
proof (induction w n mx a orc rule: attempt_loop.induct)
  case (1 w n mx a orc)
  show ?case
  proof (cases "a < mx")
    case False
    with "1.prems" show ?thesis by (simp add: attempt_loop.simps)
  next
    case True
    show ?thesis
    proof (cases "healthCheckService_throws w n (a + 1)")
      case None
      with True "1.prems" show ?thesis by (auto simp: attempt_loop.simps[of w n mx a])
    next
      case (Some msg)
      show ?thesis
      proof (cases "a + 1 = mx")
        case last: True
        with True Some "1.prems" show ?thesis by (auto simp: attempt_loop.simps[of w n mx a])
      next
        case False
        let ?o1 = "orc_log ''warn''
                      (''Health check attempt '' @ show_nat (a + 1) @ ''/'' @ show_nat mx
                        @ '' failed for '' @ n @ '': '' @ msg) orc"
        from True Some False "1.prems" have run: "attempt_loop w n mx (a + 1) ?o1 = (r, orc')"
          by (simp add: attempt_loop.simps[of w n mx a] Let_def)
        from "1.IH"[OF True refl Some refl False run] show ?thesis by simp
      qed
    qed
  qed
qed

lemma runHealthChecks_loop_only_logs:
  "runHealthChecks_loop w ns orc = (r, orc') \<Longrightarrow>
     deploymentState orc' = deploymentState orc \<and> history orc' = history orc
     \<and> effects orc' = effects orc \<and> orc_config orc' = orc_config orc"
proof (induction ns arbitrary: orc)
  case Nil then show ?case by simp
next
  case (Cons n ns)
  show ?case
  proof (cases "map_get (cfg_services (orc_config orc)) n")
    case None with Cons.prems show ?thesis by simp
  next
    case (Some sc)
    show ?thesis
    proof (cases "enabled sc")
      case False
      with Some Cons.prems Cons.IH show ?thesis by simp
    next
      case True
      let ?o1 = "orc_log ''info'' (''Health checking service: '' @ n) orc"
      obtain r2 o2 where at: "attempt_loop w n (healthCheckRetries (cfg_deployment (orc_config ?o1))) 0 ?o1 = (r2, o2)"
        by fastforce
      note f = attempt_loop_only_logs[OF at]
      show ?thesis
      proof (cases r2)
        case None
        with Some True at Cons.prems have "runHealthChecks_loop w ns o2 = (r, orc')"
          by (simp add: Let_def)
        from Cons.IH[OF this] f show ?thesis by simp
      next
        case (Some e)
        with \<open>map_get (cfg_services (orc_config orc)) n = Some sc\<close> True at Cons.prems
        have "orc' = o2" by (simp add: Let_def)
        with f show ?thesis by simp
      qed
    qed
  qed
qed

lemma runHealthChecks_only_logs:
  assumes "runHealthChecks w orc = (r, orc')"
  shows "deploymentState orc' = deploymentState orc \<and> history orc' = history orc
     \<and> effects orc' = effects orc \<and> orc_config orc' = orc_config orc"
proof -
  let ?o1 = "orc_log ''info'' ''Running health checks'' orc"
  obtain r2 o2 where l: "runHealthChecks_loop w (map_keys (services (deploymentState ?o1))) ?o1 = (r2, o2)"
    by fastforce
  note f = runHealthChecks_loop_only_logs[OF l]
  from assms l have "orc' = o2 \<or> orc' = orc_log ''success'' ''All health checks passed'' o2"
    by (auto simp: runHealthChecks_def Let_def split: option.splits)
  with f show ?thesis by auto
qed


subsection \<open>rollback\<close>

lemma rollbackService_fields [simp]:
  "deploymentState (rollbackService n orc) = deploymentState orc"
  "history (rollbackService n orc) = history orc"
  "effects (rollbackService n orc) = effects orc @ [ServiceRolledBack n]"
  "orc_config (rollbackService n orc) = orc_config orc"
  by (simp_all add: rollbackService_def)

lemma rollback_loop_result:
  "set ns \<subseteq> fst ` set (services (deploymentState orc)) \<Longrightarrow>
   rollback_loop ns orc = (r, orc') \<Longrightarrow>
     r = None \<and> deploymentState orc' = deploymentState orc \<and> history orc' = history orc
     \<and> orc_config orc' = orc_config orc
     \<and> effects orc' = effects orc @ map ServiceRolledBack (filter (is_deployed orc) ns)"
proof (induction ns arbitrary: orc)
  case Nil then show ?case by simp
next
  case (Cons n ns)
  from Cons.prems(1) obtain s where s: "map_get (services (deploymentState orc)) n = Some s"
    by (cases "map_get (services (deploymentState orc)) n") (auto simp: map_get_None_iff)
  show ?case
  proof (cases "se_status s = Deployed")
    case True
    let ?o = "rollbackService n (orc_log ''info'' (''Rolling back service: '' @ n) orc)"
    have sub: "set ns \<subseteq> fst ` set (services (deploymentState ?o))" using Cons.prems(1) by simp
    have run: "rollback_loop ns ?o = (r, orc')" using Cons.prems(2) s True by simp
    have dep: "is_deployed ?o = is_deployed orc" by (rule ext) (simp add: is_deployed_def)
    from Cons.IH[OF sub run] s True dep show ?thesis by (simp add: is_deployed_def)
  next
    case False
    have sub: "set ns \<subseteq> fst ` set (services (deploymentState orc))" using Cons.prems(1) by simp
    have run: "rollback_loop ns orc = (r, orc')" using Cons.prems(2) s False by simp
    from Cons.IH[OF sub run] s False show ?thesis by (simp add: is_deployed_def)
  qed
qed

lemma rollback_result:
  assumes "rollback orc = (r, orc')"
  shows "r = None \<and> deploymentState orc' = deploymentState orc \<and> history orc' = history orc
     \<and> orc_config orc' = orc_config orc
     \<and> effects orc' = effects orc @ RollbackCalled #
          map ServiceRolledBack (filter (is_deployed orc) (rev (map_keys (services (deploymentState orc)))))"
proof -
  let ?o1 = "orc_log ''warn'' ''Initiating rollback procedure'' (add_effect RollbackCalled orc)"
  let ?ks = "rev (map_keys (services (deploymentState ?o1)))"
  obtain r2 o2 where run: "rollback_loop ?ks ?o1 = (r2, o2)" by fastforce
  have sub: "set ?ks \<subseteq> fst ` set (services (deploymentState ?o1))" by (simp add: map_keys_def)
  have dep: "is_deployed ?o1 = is_deployed orc" by (rule ext) (simp add: is_deployed_def)
  from rollback_loop_result[OF sub run] have r2: "r2 = None"
    and rest: "deploymentState o2 = deploymentState orc" "history o2 = history orc"
      "orc_config o2 = orc_config orc"
      "effects o2 = effects orc @ RollbackCalled # map ServiceRolledBack (filter (is_deployed orc) ?ks)"
    by (simp_all add: dep)
  from assms run r2 have "r = None" "orc' = orc_log ''success'' ''Rollback completed successfully'' o2"
    by (simp_all add: rollback_def Let_def)
  with rest show ?thesis by simp
qed

subsection \<open>Failure handling\<close>

lemma handleDeploymentFailure_result:
  assumes "handleDeploymentFailure e i orc = (r, orc')"
  shows "r = None \<and> deploymentState orc' = deploymentState orc \<and> history orc' = history orc
     \<and> orc_config orc' = orc_config orc
     \<and> effects orc' = effects orc @
          (if 2 \<le> i then RollbackCalled # map ServiceRolledBack
                 (filter (is_deployed orc) (rev (map_keys (services (deploymentState orc)))))
           else [])"
proof (cases "2 \<le> i")
  case True
  let ?o1 = "orc_log ''error'' (''Deployment failed at step '' @ show_nat (i + 1) @ '': '' @ e) orc"
  from assms True have "rollback ?o1 = (r, orc')" by (simp add: handleDeploymentFailure_def Let_def)
  from rollback_result[OF this] True show ?thesis by (simp add: is_deployed_def[abs_def])
next
  case False
  with assms show ?thesis by (auto simp: handleDeploymentFailure_def Let_def)
qed

lemma length_steps [simp]: "length (steps w) = 7"
  by (simp add: steps_def)



lemma deploymentSuccess_fields [simp]:
  "deploymentState (deploymentSuccess orc) = deploymentState orc"
  "history (deploymentSuccess orc) = history orc"
  "effects (deploymentSuccess orc) = effects orc"
  by (simp_all add: deploymentSuccess_def)

lemma deploymentFailure_fields [simp]:
  "deploymentState (deploymentFailure e orc) = deploymentState orc"
  "history (deploymentFailure e orc) = history orc"
  "effects (deploymentFailure e orc) = effects orc @ [FailureRecordWritten e]"
  by (simp_all add: deploymentFailure_def createFailureRecord_def)

lemma constructed_fields:
  assumes "DeploymentOrchestrator env file = Inr orc0"
  shows "environment orc0 = env" and "loadConfig file = Inr (orc_config orc0)"
    and "logs orc0 = []" and "effects orc0 = []"
    and "deploymentState orc0 = \<lparr> phase = ''initialized'', currentStep = 0, totalSteps = 0,
                                   services = [], rollbackPlan = [] \<rparr>"
    and "history orc0 = [deploymentState orc0]"
  using assms by (auto simp: DeploymentOrchestrator_def Let_def split: sum.splits)

lemma staging_constructed: "DeploymentOrchestrator ''staging'' NoFile = Inr staging_orchestrator"
  by (simp add: DeploymentOrchestrator_def loadConfig_def staging_orchestrator_def Let_def)



subsection \<open>Progress counters\<close>












subsection \<open>Rollback order\<close>

lemma rolled_back_names:
  "concat (map (\<lambda>e. case e of ServiceRolledBack n \<Rightarrow> [n] | _ \<Rightarrow> []) (map ServiceRolledBack ns)) = ns"
  by (induction ns) auto

lemma rolled_back_append:
  "effects orc' = effects orc @ RollbackCalled # map ServiceRolledBack ns \<Longrightarrow>
     rolled_back_services orc' = rolled_back_services orc @ ns"
  using rolled_back_names[of ns] by (simp add: rolled_back_services_def)

lemma rollback_rolled_back:
  "fst (rollback orc) = None \<and>
   rolled_back_services (snd (rollback orc)) = rolled_back_services orc
      @ filter (is_deployed orc) (rev (map_keys (services (deploymentState orc))))"
proof -
  obtain r orc' where rb: "rollback orc = (r, orc')" by fastforce
  from rollback_result[OF rb] have "r = None"
    and "effects orc' = effects orc @ RollbackCalled #
          map ServiceRolledBack (filter (is_deployed orc) (rev (map_keys (services (deploymentState orc)))))"
    by simp_all
  from this(1) rolled_back_append[OF this(2)] rb show ?thesis by simp
qed

lemma map_set_keys: "fst ` set (map_set k v kvs) = insert k (fst ` set kvs)"
proof (induction kvs)
  case Nil then show ?case by simp
next
  case (Cons x kvs)
  obtain a b where x: "x = (a, b)" by (cases x)
  from Cons x show ?case by (cases "a = k") auto
qed

lemma distinct_map_set: "distinct (map fst (map_set k v kvs)) = distinct (map fst kvs)"
proof (induction kvs)
  case Nil then show ?case by simp
next
  case (Cons x kvs)
  obtain a b where x: "x = (a, b)" by (cases x)
  show ?case
  proof (cases "a = k")
    case True with x show ?thesis by simp
  next
    case False
    have "a \<in> fst ` set (map_set k v kvs) \<longleftrightarrow> a \<in> fst ` set kvs"
      using False by (simp add: map_set_keys)
    with False x Cons show ?thesis by simp
  qed
qed

lemma filter_deployed_keys:
  assumes "distinct (map fst kvs)"
  shows "filter (\<lambda>n. case map_get kvs n of Some s \<Rightarrow> P s | None \<Rightarrow> False) (map fst kvs)
         = map fst (filter (\<lambda>(k, v). P v) kvs)"
proof -
  have "filter (\<lambda>n. case map_get kvs n of Some s \<Rightarrow> P s | None \<Rightarrow> False) (map fst kvs)
        = map fst (filter ((\<lambda>n. case map_get kvs n of Some s \<Rightarrow> P s | None \<Rightarrow> False) \<circ> fst) kvs)"
    by (simp add: filter_map)
  also have "filter ((\<lambda>n. case map_get kvs n of Some s \<Rightarrow> P s | None \<Rightarrow> False) \<circ> fst) kvs
        = filter (\<lambda>(k, v). P v) kvs"
    by (rule filter_cong) (auto simp: map_get_distinct[OF assms])
  finally show ?thesis .
qed

lemma deployServices_loop_services:
  "distinct (map fst cs) \<Longrightarrow> fst ` set cs \<inter> fst ` set (services (deploymentState orc)) = {} \<Longrightarrow>
   deployServices_loop w cs orc = (r, orc') \<Longrightarrow>
     \<exists>fs. services (deploymentState orc') =
            services (deploymentState orc)
            @ map (\<lambda>n. (n, \<lparr> se_status = Deployed, se_timestamp = time_now w,
                               se_version = Some (getServiceVersion w n), se_error = None \<rparr>))
                  (deployed_order w cs)
            @ fs
          \<and> list_all (\<lambda>(n, s). se_status s = Failed) fs \<and> (r = None \<longrightarrow> fs = [])"
proof (induction cs arbitrary: orc)
  case Nil then show ?case by simp
next
  case (Cons c cs)
  obtain n sc where c: "c = (n, sc)" by (cases c)
  from Cons.prems(1) c have dcs: "distinct (map fst cs)" and nn: "n \<notin> fst ` set cs" by auto
  from Cons.prems(2) c have fresh: "n \<notin> fst ` set (services (deploymentState orc))"
    and disj: "fst ` set cs \<inter> fst ` set (services (deploymentState orc)) = {}" by auto
  show ?case
  proof (cases "enabled sc")
    case False
    let ?o = "orc_log ''info'' (''Skipping disabled service: '' @ n) orc"
    from Cons.prems(3) c False have run: "deployServices_loop w cs ?o = (r, orc')" by simp
    have "fst ` set cs \<inter> fst ` set (services (deploymentState ?o)) = {}" using disj by simp
    from Cons.IH[OF dcs this run] c False show ?thesis by simp
  next
    case True
    let ?o1 = "orc_log ''info'' (''Deploying service: '' @ n) orc"
    show ?thesis
    proof (cases "deployService w n")
      case None
      let ?e = "\<lparr> se_status = Deployed, se_timestamp = time_now w,
                 se_version = Some (getServiceVersion w n), se_error = None \<rparr>"
      let ?o2 = "orc_log ''success'' (''Service '' @ n @ '' deployed successfully'')
         (set_state (\<lambda>ds. ds\<lparr> services := map_set n ?e (services ds) \<rparr>) ?o1)"
      from Cons.prems(3) c True None have run: "deployServices_loop w cs ?o2 = (r, orc')" by simp
      have s2: "services (deploymentState ?o2) = services (deploymentState orc) @ [(n, ?e)]"
        using fresh by (simp add: map_set_fresh)
      then have "fst ` set cs \<inter> fst ` set (services (deploymentState ?o2)) = {}"
        using disj nn by auto
      from Cons.IH[OF dcs this run] s2 c True None show ?thesis by simp
    next
      case (Some msg)
      let ?e = "\<lparr> se_status = Failed, se_timestamp = time_now w, se_version = None, se_error = Some msg \<rparr>"
      from Cons.prems(3) c True Some have "r \<noteq> None"
        "orc' = set_state (\<lambda>ds. ds\<lparr> services := map_set n ?e (services ds) \<rparr>) ?o1" by auto
      with fresh c True Some show ?thesis by (simp add: map_set_fresh)
    qed
  qed
qed

lemma deployServices_services:
  assumes "distinct (map fst (cfg_services (orc_config orc)))"
    and "services (deploymentState orc) = []"
    and "deployServices w orc = (r, orc')"
  shows "\<exists>fs. services (deploymentState orc') =
            map (\<lambda>n. (n, \<lparr> se_status = Deployed, se_timestamp = time_now w,
                               se_version = Some (getServiceVersion w n), se_error = None \<rparr>))
                  (deployed_order w (cfg_services (orc_config orc)))
            @ fs
          \<and> list_all (\<lambda>(n, s). se_status s = Failed) fs \<and> (r = None \<longrightarrow> fs = [])"
proof -
  let ?o1 = "orc_log ''info'' ''Deploying services'' orc"
  obtain r2 o2 where l: "deployServices_loop w (cfg_services (orc_config ?o1)) ?o1 = (r2, o2)"
    by fastforce
  have d: "distinct (map fst (cfg_services (orc_config ?o1)))" using assms(1) by simp
  have e: "fst ` set (cfg_services (orc_config ?o1)) \<inter> fst ` set (services (deploymentState ?o1)) = {}"
    using assms(2) by simp
  from assms(3) l have "r = r2" "deploymentState orc' = deploymentState o2"
    by (auto simp: deployServices_def Let_def split: option.splits)
  with deployServices_loop_services[OF d e l] assms(2) show ?thesis by simp
qed

lemma deployed_order_distinct: "distinct (map fst cs) \<Longrightarrow> distinct (deployed_order w cs)"
proof (induction cs)
  case Nil then show ?case by simp
next
  case (Cons c cs)
  obtain n sc where c: "c = (n, sc)" by (cases c)
  have sub: "\<And>cs. set (deployed_order w cs) \<subseteq> fst ` set cs"
  proof -
    fix cs :: "(string \<times> serviceConfig) list"
    show "set (deployed_order w cs) \<subseteq> fst ` set cs"
      by (induction cs) (auto split: option.splits if_splits)
  qed
  from Cons c sub[of cs] show ?case by (auto split: option.splits)
qed

lemma deployServices_loop_keys_distinct:
  "deployServices_loop w cs orc = (r, orc') \<Longrightarrow>
   (distinct (map fst (services (deploymentState orc))) \<longrightarrow>
      distinct (map fst (services (deploymentState orc'))))
   \<and> effects orc' = effects orc"
proof (induction cs arbitrary: orc)
  case Nil then show ?case by simp
next
  case (Cons c cs)
  obtain n sc where c: "c = (n, sc)" by (cases c)
  show ?case
  proof (cases "enabled sc")
    case False
    with Cons.prems c have "deployServices_loop w cs
        (orc_log ''info'' (''Skipping disabled service: '' @ n) orc) = (r, orc')" by simp
    from Cons.IH[OF this] show ?thesis by simp
  next
    case True
    show ?thesis
    proof (cases "deployService w n")
      case None
      let ?e = "\<lparr> se_status = Deployed, se_timestamp = time_now w,
                 se_version = Some (getServiceVersion w n), se_error = None \<rparr>"
      let ?o2 = "orc_log ''success'' (''Service '' @ n @ '' deployed successfully'')
         (set_state (\<lambda>ds. ds\<lparr> services := map_set n ?e (services ds) \<rparr>)
            (orc_log ''info'' (''Deploying service: '' @ n) orc))"
      from Cons.prems(1) c True None have run: "deployServices_loop w cs ?o2 = (r, orc')" by simp
      from Cons.IH[OF run] show ?thesis by (simp add: distinct_map_set)
    next
      case (Some msg)
      with Cons.prems c True show ?thesis by (auto simp: distinct_map_set)
    qed
  qed
qed

text \<open>
  Claim C5. \<^verbatim>\<open>rollback\<close> never throws, and it calls \<^verbatim>\<open>rollbackService\<close> for
  the recorded services whose status is deployed, in the reverse of the order of the
  services map, and for no other service. When the deploy phase ran on a fresh
  orchestrator whose configuration names each service once, that is exactly the reverse
  of the deployment order; the service whose deployment failed is not among them.
\<close>

theorem rollback_reverse_deployment_order:
  "fst (rollback orc) = None
   \<and> rolled_back_services (snd (rollback orc)) =
       rolled_back_services orc @ filter (is_deployed orc) (rev (map_keys (services (deploymentState orc))))
   \<and> (distinct (map fst (cfg_services (orc_config orc))) \<and> services (deploymentState orc) = [] \<longrightarrow>
        fst (rollback (snd (deployServices w orc))) = None
        \<and> rolled_back_services (snd (rollback (snd (deployServices w orc)))) =
            rolled_back_services orc @ rev (deployed_order w (cfg_services (orc_config orc))))"
proof (intro conjI impI)
  show "fst (rollback orc) = None" using rollback_rolled_back by blast
  show "rolled_back_services (snd (rollback orc)) =
       rolled_back_services orc @ filter (is_deployed orc) (rev (map_keys (services (deploymentState orc))))"
    using rollback_rolled_back by blast
next
  assume h: "distinct (map fst (cfg_services (orc_config orc))) \<and> services (deploymentState orc) = []"
  show "fst (rollback (snd (deployServices w orc))) = None" using rollback_rolled_back by blast
  obtain r orc1 where ds: "deployServices w orc = (r, orc1)" by fastforce
  let ?D = "deployed_order w (cfg_services (orc_config orc))"
  let ?E = "\<lambda>n. (n, \<lparr> se_status = Deployed, se_timestamp = time_now w,
                               se_version = Some (getServiceVersion w n), se_error = None \<rparr>)"
  from deployServices_services[OF _ _ ds] h obtain fs where
    sv: "services (deploymentState orc1) = map ?E ?D @ fs"
    and fl: "list_all (\<lambda>(n, s). se_status s = Failed) fs" by blast
  have dk: "distinct (map fst (services (deploymentState orc1)))"
    and ef: "effects orc1 = effects orc"
  proof -
    let ?o1 = "orc_log ''info'' ''Deploying services'' orc"
    obtain r2 o2 where l: "deployServices_loop w (cfg_services (orc_config ?o1)) ?o1 = (r2, o2)"
      by fastforce
    from ds l have "deploymentState orc1 = deploymentState o2" "effects orc1 = effects o2"
      by (auto simp: deployServices_def Let_def split: option.splits)
    with deployServices_loop_keys_distinct[OF l] h
    show "distinct (map fst (services (deploymentState orc1)))" "effects orc1 = effects orc"
      by simp_all
  qed
  have "filter (is_deployed orc1) (map_keys (services (deploymentState orc1)))
        = map fst (filter (\<lambda>(k, v). se_status v = Deployed) (services (deploymentState orc1)))"
    unfolding is_deployed_def[abs_def] map_keys_def by (rule filter_deployed_keys[OF dk])
  also have "\<dots> = ?D"
  proof -
    have "filter (\<lambda>(k, v). se_status v = Deployed) (map ?E ?D) = map ?E ?D"
      by (induction ?D) auto
    moreover have "filter (\<lambda>(k, v). se_status v = Deployed) fs = []"
      using fl by (induction fs) auto
    ultimately show ?thesis by (simp add: sv comp_def)
  qed
  finally have "filter (is_deployed orc1) (rev (map_keys (services (deploymentState orc1)))) = rev ?D"
    by (simp add: rev_filter[symmetric])
  moreover have "rolled_back_services orc1 = rolled_back_services orc"
    using ef by (simp add: rolled_back_services_def)
  ultimately show "rolled_back_services (snd (rollback (snd (deployServices w orc)))) =
            rolled_back_services orc @ rev ?D"
    using rollback_rolled_back[of orc1] ds by simp
qed

theorem rollback_reverse_deployment_order_witness:
  "distinct (map fst (cfg_services (orc_config staging_orchestrator)))
   \<and> services (deploymentState staging_orchestrator) = []
   \<and> map (\<lambda>(n, s). (n, se_status s))
        (services (deploymentState (snd (deployServices world_ok staging_orchestrator))))
       = [(''backend'', Deployed), (''frontend'', Deployed)]
   \<and> rolled_back_services (snd (rollback (snd (deployServices world_ok staging_orchestrator))))
       = [''frontend'', ''backend'']
   \<and> map (\<lambda>(n, s). (n, se_status s))
        (services (deploymentState (snd (deployServices world_deploy_fail staging_orchestrator))))
       = [(''backend'', Deployed), (''frontend'', Failed)]
   \<and> rolled_back_services (snd (rollback (snd (deployServices world_deploy_fail staging_orchestrator))))
       = [''backend'']"
proof -
  let ?O = "staging_orchestrator"
  have h: "distinct (map fst (cfg_services (orc_config ?O))) \<and> services (deploymentState ?O) = []"
    by (simp add: staging_orchestrator_def default_config_def Let_def)
  have e: "rolled_back_services ?O = []"
    "deployed_order world_ok (cfg_services (orc_config ?O)) = [''backend'', ''frontend'']"
    "deployed_order world_deploy_fail (cfg_services (orc_config ?O)) = [''backend'']"
    by (simp_all add: rolled_back_services_def staging_orchestrator_def default_config_def
        Let_def deployService_def world_ok_def world_deploy_fail_def)
  have s: "map (\<lambda>(n, s). (n, se_status s))
        (services (deploymentState (snd (deployServices world_ok ?O))))
       = [(''backend'', Deployed), (''frontend'', Deployed)]"
    "map (\<lambda>(n, s). (n, se_status s))
        (services (deploymentState (snd (deployServices world_deploy_fail ?O))))
       = [(''backend'', Deployed), (''frontend'', Failed)]"
    by (simp_all add: orc_eval)
  from rollback_reverse_deployment_order[of ?O world_ok] h e
  have 1: "rolled_back_services (snd (rollback (snd (deployServices world_ok ?O)))) = [''frontend'', ''backend'']"
    by simp
  from rollback_reverse_deployment_order[of ?O world_deploy_fail] h e
  have 2: "rolled_back_services (snd (rollback (snd (deployServices world_deploy_fail ?O)))) = [''backend'']"
    by simp
  from h s 1 2 show ?thesis by simp
qed

subsection \<open>Command line\<close>

text \<open>
  What a call of \<^verbatim>\<open>main\<close> does without a positional argument, and when it ends with
  code 1 without an orchestrator: for an argument that is not empty and names no valid
  environment, and when the constructor throws.
\<close>

lemma main_without_argument:
  "main [] files w =
     (case DeploymentOrchestrator ''staging'' (files ''staging'') of
        Inl error \<Rightarrow> (1, None)
      | Inr orc0 \<Rightarrow> (case deploy w orc0 of
                      (None, orc') \<Rightarrow> (0, Some orc') | (Some e, orc') \<Rightarrow> (1, Some orc')))"
  by (simp add: main_def validEnvironments_def Let_def split: sum.splits prod.splits option.splits)

text \<open>
  Claim C10 at its input: the script run with no argument. The class body binds the
  strict-mode reserved word \<^verbatim>\<open>package\<close>, so the file is rejected before
  \<^verbatim>\<open>main\<close> is called: the process exits with code 1 and no orchestrator is
  constructed, for this and for every other argument list.
\<close>

theorem node_script_exits_before_main:
  "\<not> script_parses \<and> node_script [] files w = (1, None) \<and> node_script args files w = (1, None)"
  by (simp add: node_script_def script_parses_def strict_reserved_words_def
      getServiceVersion_declarations_def)

subsection \<open>Health checks with retries\<close>

lemma attempt_loop_result:
  "fst (attempt_loop w n mx a orc) =
     (if a < mx \<and> (\<forall>k. a < k \<and> k \<le> mx \<longrightarrow> healthCheckService_throws w n k \<noteq> None)
      then Some (''Health check failed for '' @ n @ '' after '' @ show_nat mx @ '' attempts'')
      else None)"
proof (induction w n mx a orc rule: attempt_loop.induct)
  case (1 w n mx a orc)
  show ?case
  proof (cases "a < mx")
    case False
    then show ?thesis by (simp add: attempt_loop.simps[of w n mx a])
  next
    case True
    show ?thesis
    proof (cases "healthCheckService_throws w n (a + 1)")
      case None
      have "\<not> (\<forall>k. a < k \<and> k \<le> mx \<longrightarrow> healthCheckService_throws w n k \<noteq> None)"
        using None True by (intro notI) (auto dest: spec[of _ "a + 1"])
      with True None show ?thesis by (simp add: attempt_loop.simps[of w n mx a])
    next
      case (Some msg)
      show ?thesis
      proof (cases "a + 1 = mx")
        case last: True
        have "\<forall>k. a < k \<and> k \<le> mx \<longrightarrow> healthCheckService_throws w n k \<noteq> None"
        proof (intro allI impI)
          fix k assume "a < k \<and> k \<le> mx"
          with last have "k = a + 1" by simp
          with Some show "healthCheckService_throws w n k \<noteq> None" by simp
        qed
        with True Some last show ?thesis by (simp add: attempt_loop.simps[of w n mx a])
      next
        case False
        let ?o1 = "orc_log ''warn''
                      (''Health check attempt '' @ show_nat (a + 1) @ ''/'' @ show_nat mx
                        @ '' failed for '' @ n @ '': '' @ msg) orc"
        have eq: "attempt_loop w n mx a orc = attempt_loop w n mx (a + 1) ?o1"
          using True Some False by (simp add: attempt_loop.simps[of w n mx a] Let_def)
        have "(\<forall>k. a < k \<and> k \<le> mx \<longrightarrow> healthCheckService_throws w n k \<noteq> None)
              \<longleftrightarrow> (\<forall>k. a + 1 < k \<and> k \<le> mx \<longrightarrow> healthCheckService_throws w n k \<noteq> None)"
        proof
          assume "\<forall>k. a < k \<and> k \<le> mx \<longrightarrow> healthCheckService_throws w n k \<noteq> None"
          then show "\<forall>k. a + 1 < k \<and> k \<le> mx \<longrightarrow> healthCheckService_throws w n k \<noteq> None" by simp
        next
          assume r: "\<forall>k. a + 1 < k \<and> k \<le> mx \<longrightarrow> healthCheckService_throws w n k \<noteq> None"
          show "\<forall>k. a < k \<and> k \<le> mx \<longrightarrow> healthCheckService_throws w n k \<noteq> None"
          proof (intro allI impI)
            fix k assume k: "a < k \<and> k \<le> mx"
            show "healthCheckService_throws w n k \<noteq> None"
            proof (cases "k = a + 1")
              case True with Some show ?thesis by simp
            next
              case False with k r show ?thesis by simp
            qed
          qed
        qed
        moreover have "a + 1 < mx" using True False by simp
        ultimately show ?thesis
          using "1.IH"[OF True refl Some refl False] eq True by simp
      qed
    qed
  qed
qed

lemma all_attempts_fail_iff:
  "all_attempts_fail w n mx \<longleftrightarrow> (\<forall>k. 0 < k \<and> k \<le> mx \<longrightarrow> healthCheckService_throws w n k \<noteq> None)"
proof -
  have "set [1..<mx + 1] = {k. 0 < k \<and> k \<le> mx}" by auto
  then show ?thesis by (simp add: all_attempts_fail_def list_all_iff)
qed

lemma attempt_loop_from_zero:
  "fst (attempt_loop w n mx 0 orc) =
     (if 0 < mx \<and> all_attempts_fail w n mx
      then Some (''Health check failed for '' @ n @ '' after '' @ show_nat mx @ '' attempts'')
      else None)"
  by (simp add: attempt_loop_result all_attempts_fail_iff)

lemma exhausts_config: "orc_config a = orc_config b \<Longrightarrow> exhausts w a = exhausts w b"
  by (rule ext) (simp add: exhausts_def service_enabled_def)

lemma runHealthChecks_loop_result:
  "\<forall>n \<in> set ns. map_get (cfg_services (orc_config orc)) n \<noteq> None \<Longrightarrow>
   fst (runHealthChecks_loop w ns orc) =
     (case find (exhausts w orc) ns of
        None \<Rightarrow> None
      | Some s \<Rightarrow> Some (''Health check failed for '' @ s @ '' after ''
                       @ show_nat (healthCheckRetries (cfg_deployment (orc_config orc))) @ '' attempts''))"
proof (induction ns arbitrary: orc)
  case Nil then show ?case by simp
next
  case (Cons n ns)
  from Cons.prems obtain sc where sc: "map_get (cfg_services (orc_config orc)) n = Some sc" by auto
  show ?case
  proof (cases "enabled sc")
    case False
    then have ne: "\<not> exhausts w orc n" using sc by (simp add: exhausts_def service_enabled_def)
    from Cons.prems have "\<forall>n \<in> set ns. map_get (cfg_services (orc_config orc)) n \<noteq> None" by simp
    from Cons.IH[OF this] sc False ne show ?thesis by simp
  next
    case True
    let ?o1 = "orc_log ''info'' (''Health checking service: '' @ n) orc"
    let ?N = "healthCheckRetries (cfg_deployment (orc_config orc))"
    obtain r2 o2 where at: "attempt_loop w n ?N 0 ?o1 = (r2, o2)" by fastforce
    from attempt_loop_only_logs[OF at] have c2: "orc_config o2 = orc_config orc" by simp
    have r2: "r2 = (if 0 < ?N \<and> all_attempts_fail w n ?N
      then Some (''Health check failed for '' @ n @ '' after '' @ show_nat ?N @ '' attempts'')
      else None)"
      using attempt_loop_from_zero[of w n ?N ?o1] at by simp
    have ex: "exhausts w orc n \<longleftrightarrow> 0 < ?N \<and> all_attempts_fail w n ?N"
      using sc True by (simp add: exhausts_def service_enabled_def)
    show ?thesis
    proof (cases "exhausts w orc n")
      case ex1: True
      with ex r2 have "r2 = Some (''Health check failed for '' @ n @ '' after '' @ show_nat ?N @ '' attempts'')"
        by simp
      with sc True at ex1 show ?thesis by (simp add: Let_def)
    next
      case ex0: False
      with ex r2 have rn: "r2 = None" by auto
      have "\<forall>n \<in> set ns. map_get (cfg_services (orc_config o2)) n \<noteq> None"
        using Cons.prems c2 by simp
      from Cons.IH[OF this] exhausts_config[OF c2, of w] c2
      have "fst (runHealthChecks_loop w ns o2) =
         (case find (exhausts w orc) ns of
            None \<Rightarrow> None
          | Some s \<Rightarrow> Some (''Health check failed for '' @ s @ '' after '' @ show_nat ?N @ '' attempts''))"
        by (simp split: option.splits)
      with sc True at rn ex0 show ?thesis by (simp add: Let_def)
    qed
  qed
qed

lemma runHealthChecks_result:
  assumes "\<forall>n \<in> set (map_keys (services (deploymentState orc))). map_get (cfg_services (orc_config orc)) n \<noteq> None"
  shows "fst (runHealthChecks w orc) =
     (case find (exhausts w orc) (map_keys (services (deploymentState orc))) of
        None \<Rightarrow> None
      | Some s \<Rightarrow> Some (''Health check failed for '' @ s @ '' after ''
                       @ show_nat (healthCheckRetries (cfg_deployment (orc_config orc))) @ '' attempts''))"
proof -
  let ?o1 = "orc_log ''info'' ''Running health checks'' orc"
  have c: "orc_config ?o1 = orc_config orc" by simp
  have "\<forall>n \<in> set (map_keys (services (deploymentState ?o1))). map_get (cfg_services (orc_config ?o1)) n \<noteq> None"
    using assms by simp
  from runHealthChecks_loop_result[OF this, of w] exhausts_config[OF c, of w]
  have l: "fst (runHealthChecks_loop w (map_keys (services (deploymentState ?o1))) ?o1) =
     (case find (exhausts w orc) (map_keys (services (deploymentState orc))) of
        None \<Rightarrow> None
      | Some s \<Rightarrow> Some (''Health check failed for '' @ s @ '' after ''
                       @ show_nat (healthCheckRetries (cfg_deployment (orc_config orc))) @ '' attempts''))"
    by (simp split: option.splits)
  obtain r2 o2 where run: "runHealthChecks_loop w (map_keys (services (deploymentState ?o1))) ?o1 = (r2, o2)"
    by fastforce
  have "fst (runHealthChecks w orc) = r2"
    using run by (cases r2) (simp_all add: runHealthChecks_def Let_def)
  with l run show ?thesis by simp
qed

lemma deployServices_loop_ok:
  "list_all (\<lambda>(n, sc). enabled sc \<longrightarrow> deployService w n = None) cs \<Longrightarrow>
   fst (deployServices_loop w cs orc) = None
   \<and> deployed_order w cs = map fst (filter (\<lambda>(n, sc). enabled sc) cs)"
proof (induction cs arbitrary: orc)
  case Nil then show ?case by simp
next
  case (Cons c cs)
  obtain n sc where c: "c = (n, sc)" by (cases c)
  from Cons.prems c have rest: "list_all (\<lambda>(n, sc). enabled sc \<longrightarrow> deployService w n = None) cs"
    and this_one: "enabled sc \<longrightarrow> deployService w n = None" by simp_all
  show ?case
  proof (cases "enabled sc")
    case False
    with Cons.IH[OF rest] c show ?thesis by simp
  next
    case True
    with this_one have "deployService w n = None" by simp
    with Cons.IH[OF rest] c True show ?thesis by simp
  qed
qed

lemma deployServices_all_ok:
  assumes "distinct (map fst (cfg_services (orc_config orc)))"
    and "services (deploymentState orc) = []"
    and "list_all (\<lambda>(n, sc). enabled sc \<longrightarrow> deployService w n = None) (cfg_services (orc_config orc))"
  shows "\<exists>orc'. deployServices w orc = (None, orc')
     \<and> services (deploymentState orc') = map (deployed_entry w) (enabled_names (orc_config orc))
     \<and> orc_config orc' = orc_config orc \<and> effects orc' = effects orc
     \<and> currentStep (deploymentState orc') = currentStep (deploymentState orc)"
proof -
  obtain r orc' where ds: "deployServices w orc = (r, orc')" by fastforce
  let ?o1 = "orc_log ''info'' ''Deploying services'' orc"
  obtain r2 o2 where l: "deployServices_loop w (cfg_services (orc_config ?o1)) ?o1 = (r2, o2)"
    by fastforce
  from deployServices_loop_ok[OF assms(3), of ?o1] l have r2: "r2 = None"
    and ord: "deployed_order w (cfg_services (orc_config orc)) = enabled_names (orc_config orc)"
    by (simp_all add: enabled_names_def)
  from ds l r2 have r: "r = None" and o': "orc' = orc_log ''success'' ''All services deployed'' o2"
    by (simp_all add: deployServices_def Let_def)
  from deployServices_services[OF assms(1,2) ds] r ord
  have sv: "services (deploymentState orc') = map (deployed_entry w) (enabled_names (orc_config orc))"
    by (auto simp: deployed_entry_def[abs_def])
  from deployServices_keeps[OF ds] have "orc_config orc' = orc_config orc"
    "currentStep (deploymentState orc') = currentStep (deploymentState orc)"
    by (simp_all add: keeps_progress_def progress_def)
  moreover from deployServices_loop_keys_distinct[OF l] o' have "effects orc' = effects orc" by simp
  ultimately show ?thesis using ds r sv by simp
qed

lemma step_entered_fields [simp]:
  "orc_config (step_entered w i orc) = orc_config orc"
  "effects (step_entered w i orc) = effects orc"
  "services (deploymentState (step_entered w i orc)) = services (deploymentState orc)"
  "currentStep (deploymentState (step_entered w i orc)) = i + 1"
  by (simp_all add: step_entered_def)

lemma step_completed_fields [simp]:
  "orc_config (step_completed i orc) = orc_config orc"
  "effects (step_completed i orc) = effects orc"
  "deploymentState (step_completed i orc) = deploymentState orc"
  by (simp_all add: step_completed_def)

lemma deploy_loop_step_ok:
  assumes "i < 7" and "j = i + 1" and "(steps w ! i) (step_entered w i orc) = (None, o3)"
  shows "deploy_loop w i orc = deploy_loop w j (step_completed i o3)"
  using assms by (simp add: deploy_loop.simps[of w i] step_entered_def step_completed_def Let_def)

lemma deploy_loop_step_fail:
  assumes "i < 7" and "(steps w ! i) (step_entered w i orc) = (Some e, o3)"
  shows "deploy_loop w i orc =
     (Some e, snd (handleDeploymentFailure e i
                     (orc_log ''error'' (''Step '' @ show_nat (i + 1) @ '' failed: '' @ e) o3)))"
proof -
  let ?o4 = "orc_log ''error'' (''Step '' @ show_nat (i + 1) @ '' failed: '' @ e) o3"
  obtain r5 o5 where h: "handleDeploymentFailure e i ?o4 = (r5, o5)" by fastforce
  from handleDeploymentFailure_result[OF h] have "r5 = None" by simp
  with assms h show ?thesis
    by (simp add: deploy_loop.simps[of w i] step_entered_def Let_def)
qed

lemma map_get_deployed_entry:
  "n \<in> set ns \<Longrightarrow> map_get (map (deployed_entry w) ns) n = Some (snd (deployed_entry w n))"
  by (induction ns) (auto simp: deployed_entry_def)

lemma enabled_names_configured:
  assumes "distinct (map fst (cfg_services cfg))" and "n \<in> set (enabled_names cfg)"
  shows "\<exists>sc. map_get (cfg_services cfg) n = Some sc \<and> enabled sc"
proof -
  from assms(2) obtain sc where "(n, sc) \<in> set (cfg_services cfg)" "enabled sc"
    by (auto simp: enabled_names_def)
  with map_get_distinct[OF assms(1)] show ?thesis by blast
qed

lemma pipeline_reaches_health_checks:
  assumes constructed: "DeploymentOrchestrator env file = Inr orc0"
    and validate_ok: "validateEnvironment_throws w = None"
    and prechecks_ok: "runPreDeploymentChecks_throws w = None"
    and names: "distinct (map fst (cfg_services (orc_config orc0)))"
    and deployed: "list_all (\<lambda>(n, sc). enabled sc \<longrightarrow> deployService w n = None)
                     (cfg_services (orc_config orc0))"
  shows "\<exists>o3. deploy_loop w 0 (set_state (\<lambda>ds. ds\<lparr> totalSteps := length (steps w) \<rparr>)
                  (orc_log ''info'' (''Starting deployment to '' @ environment orc0)
                    (set_state (\<lambda>ds. ds\<lparr> phase := ''started'' \<rparr>) orc0)))
               = deploy_loop w 3 o3
           \<and> orc_config o3 = orc_config orc0 \<and> effects o3 = []
           \<and> services (deploymentState o3) = map (deployed_entry w) (enabled_names (orc_config orc0))"
proof -
  note cf = constructed_fields[OF constructed]
  let ?L = "set_state (\<lambda>ds. ds\<lparr> totalSteps := length (steps w) \<rparr>)
                  (orc_log ''info'' (''Starting deployment to '' @ environment orc0)
                    (set_state (\<lambda>ds. ds\<lparr> phase := ''started'' \<rparr>) orc0))"
  have L: "orc_config ?L = orc_config orc0" "effects ?L = []" "services (deploymentState ?L) = []"
    by (simp_all add: cf(4,5))
  let ?A = "step_completed 0 (step_entered w 0 ?L)"
  have s0: "(steps w ! 0) (step_entered w 0 ?L) = (None, step_entered w 0 ?L)"
    using validate_ok by (simp add: steps_def validateEnvironment_def)
  have e0: "deploy_loop w 0 ?L = deploy_loop w 1 ?A"
    by (rule deploy_loop_step_ok[OF _ _ s0]) simp_all
  have A: "orc_config ?A = orc_config orc0" "effects ?A = []" "services (deploymentState ?A) = []"
    using L by simp_all
  let ?B = "step_completed 1 (step_entered w 1 ?A)"
  have s1: "(steps w ! 1) (step_entered w 1 ?A) = (None, step_entered w 1 ?A)"
    using prechecks_ok by (simp add: steps_def runPreDeploymentChecks_def)
  have e1: "deploy_loop w 1 ?A = deploy_loop w 2 ?B"
    by (rule deploy_loop_step_ok[OF _ _ s1]) simp_all
  have B: "orc_config ?B = orc_config orc0" "effects ?B = []" "services (deploymentState ?B) = []"
    using A by simp_all
  let ?C = "step_entered w 2 ?B"
  have C: "orc_config ?C = orc_config orc0" "effects ?C = []" "services (deploymentState ?C) = []"
    using B by simp_all
  from deployServices_all_ok[of ?C w] C names deployed
  obtain oC where dC: "deployServices w ?C = (None, oC)"
    and sC: "services (deploymentState oC) = map (deployed_entry w) (enabled_names (orc_config orc0))"
    and cC: "orc_config oC = orc_config orc0" and eC: "effects oC = []"
    by auto
  have s2: "(steps w ! 2) ?C = (None, oC)" using dC by (simp add: steps_def)
  have e2: "deploy_loop w 2 ?B = deploy_loop w 3 (step_completed 2 oC)"
    by (rule deploy_loop_step_ok[OF _ _ s2]) simp_all
  have "deploy_loop w 0 ?L = deploy_loop w 3 (step_completed 2 oC)"
    by (rule trans[OF e0 trans[OF e1 e2]])
  moreover have "orc_config (step_completed 2 oC) = orc_config orc0" "effects (step_completed 2 oC) = []"
    "services (deploymentState (step_completed 2 oC)) = map (deployed_entry w) (enabled_names (orc_config orc0))"
    using sC cC eC by simp_all
  ultimately show ?thesis by blast
qed

text \<open>
  Claim C8. Take an orchestrator as the constructor returns it, a run whose first three steps
  succeed (the environment validates, the pre-deployment checks pass, every enabled service
  deploys), at least one configured attempt, and let \<open>s\<close> be the first enabled service, in
  configuration order, all of whose \<open>maxAttempts\<close> health-check attempts throw. Then
  \<open>deploy\<close> throws ``Health check failed for s after maxAttempts attempts'', the pipeline has
  stopped at step 4, \<open>rollback\<close> has been called and has rolled back every deployed service
  in reverse deployment order, and the failure record is written. And for every service
  \<open>n\<close>: if one of its attempts, from 1 to \<open>maxAttempts\<close>, does not throw, it passes
  its health check, the retry loop returns without throwing; if all of them throw, the retry
  loop throws ``Health check failed for n after maxAttempts attempts''.
\<close>

theorem health_check_exhaustion_aborts_pipeline:
  assumes constructed: "DeploymentOrchestrator env file = Inr orc0"
    and validate_ok: "validateEnvironment_throws w = None"
    and prechecks_ok: "runPreDeploymentChecks_throws w = None"
    and names: "distinct (map fst (cfg_services (orc_config orc0)))"
    and deployed: "list_all (\<lambda>(n, sc). enabled sc \<longrightarrow> deployService w n = None)
                     (cfg_services (orc_config orc0))"
    and retries: "maxAttempts = healthCheckRetries (cfg_deployment (orc_config orc0))"
    and positive: "0 < maxAttempts"
    and first_exhausted: "find (\<lambda>n. all_attempts_fail w n maxAttempts) (enabled_names (orc_config orc0)) = Some s"
  shows "(\<exists>orc'. deploy w orc0 =
            (Some (''Health check failed for '' @ s @ '' after '' @ show_nat maxAttempts @ '' attempts''), orc')
          \<and> currentStep (deploymentState orc') = 4
          \<and> RollbackCalled \<in> set (effects orc')
          \<and> rolled_back_services orc' = rev (enabled_names (orc_config orc0))
          \<and> FailureRecordWritten
               (''Health check failed for '' @ s @ '' after '' @ show_nat maxAttempts @ '' attempts'')
             \<in> set (effects orc'))
     \<and> ((\<exists>k. 0 < k \<and> k \<le> maxAttempts \<and> healthCheckService_throws w n k = None) \<longrightarrow>
          fst (attempt_loop w n maxAttempts 0 orc) = None)
     \<and> (all_attempts_fail w n maxAttempts \<longrightarrow>
          fst (attempt_loop w n maxAttempts 0 orc) =
            Some (''Health check failed for '' @ n @ '' after '' @ show_nat maxAttempts @ '' attempts''))"
proof (intro conjI impI)
  assume "all_attempts_fail w n maxAttempts"
  with positive show "fst (attempt_loop w n maxAttempts 0 orc) =
      Some (''Health check failed for '' @ n @ '' after '' @ show_nat maxAttempts @ '' attempts'')"
    by (simp add: attempt_loop_from_zero)
next
  assume "\<exists>k. 0 < k \<and> k \<le> maxAttempts \<and> healthCheckService_throws w n k = None"
  then have "\<not> all_attempts_fail w n maxAttempts" by (auto simp: all_attempts_fail_iff)
  then show "fst (attempt_loop w n maxAttempts 0 orc) = None" by (simp add: attempt_loop_from_zero)
next
  let ?msg = "''Health check failed for '' @ s @ '' after '' @ show_nat maxAttempts @ '' attempts''"
  let ?E = "enabled_names (orc_config orc0)"
  let ?L = "set_state (\<lambda>ds. ds\<lparr> totalSteps := length (steps w) \<rparr>)
                  (orc_log ''info'' (''Starting deployment to '' @ environment orc0)
                    (set_state (\<lambda>ds. ds\<lparr> phase := ''started'' \<rparr>) orc0))"
  from pipeline_reaches_health_checks[OF constructed validate_ok prechecks_ok names deployed]
  obtain o3 where reach: "deploy_loop w 0 ?L = deploy_loop w 3 o3"
    and c3: "orc_config o3 = orc_config orc0" and e3: "effects o3 = []"
    and s3: "services (deploymentState o3) = map (deployed_entry w) ?E" by blast
  let ?H = "step_entered w 3 o3"
  have keys3: "map_keys (services (deploymentState o3)) = ?E"
    by (simp add: s3 map_keys_def comp_def deployed_entry_def)
  then have keys: "map_keys (services (deploymentState ?H)) = ?E" by simp
  have conf: "\<forall>n \<in> set (map_keys (services (deploymentState ?H))).
                 map_get (cfg_services (orc_config ?H)) n \<noteq> None"
    using enabled_names_configured[OF names] by (auto simp: keys3 c3)
  have ex: "\<And>n. n \<in> set ?E \<Longrightarrow> exhausts w ?H n = all_attempts_fail w n maxAttempts"
  proof -
    fix n assume "n \<in> set ?E"
    from enabled_names_configured[OF names this] have "service_enabled ?H n"
      by (auto simp: service_enabled_def c3)
    then show "exhausts w ?H n = all_attempts_fail w n maxAttempts"
      using positive retries by (simp add: exhausts_def c3)
  qed
  have "find (exhausts w ?H) ?E = find (\<lambda>n. all_attempts_fail w n maxAttempts) ?E"
    by (rule find_cong) (simp_all add: ex)
  with first_exhausted have fe: "find (exhausts w ?H) (map_keys (services (deploymentState ?H))) = Some s"
    by (simp add: keys3)
  from runHealthChecks_result[OF conf, of w] fe retries
  have "fst (runHealthChecks w ?H) = Some ?msg" by (simp add: c3)
  then obtain oE where hc: "runHealthChecks w ?H = (Some ?msg, oE)"
    by (cases "runHealthChecks w ?H") auto
  from runHealthChecks_only_logs[OF hc] have E: "deploymentState oE = deploymentState ?H"
    "effects oE = []" by (simp_all add: e3)
  have s3': "(steps w ! 3) ?H = (Some ?msg, oE)" using hc by (simp add: steps_def)
  let ?F = "orc_log ''error'' (''Step '' @ show_nat (3 + 1) @ '' failed: '' @ ?msg) oE"
  obtain r5 o5 where h: "handleDeploymentFailure ?msg 3 ?F = (r5, o5)" by fastforce
  have "deploy_loop w 3 o3 = (Some ?msg, snd (handleDeploymentFailure ?msg 3 ?F))"
    by (rule deploy_loop_step_fail[OF _ s3']) simp
  with h have loop: "deploy_loop w 3 o3 = (Some ?msg, o5)" by simp
  have dep: "filter (is_deployed ?F) (rev (map_keys (services (deploymentState ?F)))) = rev ?E"
  proof -
    have k: "map_keys (services (deploymentState ?F)) = ?E" using E keys3 by simp
    have "\<forall>n \<in> set (rev ?E). is_deployed ?F n"
      using E s3 by (auto simp: is_deployed_def map_get_deployed_entry, simp add: deployed_entry_def)
    then show ?thesis unfolding k by (simp add: filter_id_conv)
  qed
  from handleDeploymentFailure_result[OF h] dep E
  have o5: "currentStep (deploymentState o5) = 4"
    "effects o5 = RollbackCalled # map ServiceRolledBack (rev ?E)"
    by simp_all
  from reach loop have "deploy_loop w 0 ?L = (Some ?msg, o5)" by simp
  then have d: "deploy w orc0 = (Some ?msg, deploymentFailure ?msg o5)"
    by (simp add: deploy_def Let_def)
  have "rolled_back_services (deploymentFailure ?msg o5) = rev ?E"
    using o5(2) rolled_back_names[of "rev ?E"] by (simp add: rolled_back_services_def)
  with d o5 show "\<exists>orc'. deploy w orc0 = (Some ?msg, orc')
          \<and> currentStep (deploymentState orc') = 4
          \<and> RollbackCalled \<in> set (effects orc')
          \<and> rolled_back_services orc' = rev ?E
          \<and> FailureRecordWritten ?msg \<in> set (effects orc')"
    by simp
qed

text \<open>
  The run of the default staging configuration in which every attempt on the frontend returns
  503 and the backend answers from its second attempt on.
\<close>

theorem health_check_exhaustion_aborts_pipeline_witness:
  "DeploymentOrchestrator ''staging'' NoFile = Inr staging_orchestrator
   \<and> validateEnvironment_throws world_hc_fail = None
   \<and> runPreDeploymentChecks_throws world_hc_fail = None
   \<and> distinct (map fst (cfg_services (orc_config staging_orchestrator)))
   \<and> list_all (\<lambda>(n, sc). enabled sc \<longrightarrow> deployService world_hc_fail n = None)
        (cfg_services (orc_config staging_orchestrator))
   \<and> 5 = healthCheckRetries (cfg_deployment (orc_config staging_orchestrator))
   \<and> (0::nat) < 5
   \<and> find (\<lambda>n. all_attempts_fail world_hc_fail n 5) (enabled_names (orc_config staging_orchestrator))
       = Some ''frontend''
   \<and> (\<exists>orc'. deploy world_hc_fail staging_orchestrator =
            (Some ''Health check failed for frontend after 5 attempts'', orc')
          \<and> currentStep (deploymentState orc') = 4
          \<and> RollbackCalled \<in> set (effects orc')
          \<and> rolled_back_services orc' = [''frontend'', ''backend'']
          \<and> FailureRecordWritten ''Health check failed for frontend after 5 attempts''
             \<in> set (effects orc'))
   \<and> healthCheckService_throws world_hc_fail ''backend'' 2 = None
   \<and> fst (attempt_loop world_hc_fail ''backend'' 5 0 staging_orchestrator) = None
   \<and> all_attempts_fail world_hc_fail ''frontend'' 5
   \<and> fst (attempt_loop world_hc_fail ''frontend'' 5 0 staging_orchestrator)
       = Some ''Health check failed for frontend after 5 attempts''"
proof -
  have v: "validateEnvironment_throws world_hc_fail = None"
    "runPreDeploymentChecks_throws world_hc_fail = None"
    by (simp_all add: world_hc_fail_def world_ok_def)
  have d: "distinct (map fst (cfg_services (orc_config staging_orchestrator)))"
    by (simp add: staging_orchestrator_def default_config_def)
  have l: "list_all (\<lambda>(n, sc). enabled sc \<longrightarrow> deployService world_hc_fail n = None)
        (cfg_services (orc_config staging_orchestrator))"
    by (simp add: staging_orchestrator_def default_config_def deployService_def world_hc_fail_def world_ok_def)
  have r: "5 = healthCheckRetries (cfg_deployment (orc_config staging_orchestrator))" "(0::nat) < 5"
    by (simp_all add: staging_orchestrator_def default_config_def)
  have en: "enabled_names (orc_config staging_orchestrator) = [''backend'', ''frontend'']"
    by (simp add: enabled_names_def staging_orchestrator_def default_config_def)
  have f: "find (\<lambda>n. all_attempts_fail world_hc_fail n 5) (enabled_names (orc_config staging_orchestrator))
       = Some ''frontend''"
  proof -
    have u: "[Suc 0..<6] = [1, 2, 3, 4, 5]"
      by (simp add: upt_rec)
    show ?thesis
      by (simp add: en all_attempts_fail_def world_hc_fail_def world_ok_def u)
  qed
  have a: "all_attempts_fail world_hc_fail ''frontend'' 5"
    by (simp add: all_attempts_fail_iff world_hc_fail_def world_ok_def)
  have b: "healthCheckService_throws world_hc_fail ''backend'' 2 = None"
    by (simp add: world_hc_fail_def world_ok_def)
  then have k: "\<exists>k. 0 < k \<and> k \<le> 5 \<and> healthCheckService_throws world_hc_fail ''backend'' k = None"
    by (intro exI[of _ 2]) simp
  have m: "''Health check failed for '' @ ''frontend'' @ '' after '' @ show_nat 5 @ '' attempts''
      = ''Health check failed for frontend after 5 attempts''"
    by (simp add: show_nat.simps digit_char_simps)
  from health_check_exhaustion_aborts_pipeline
    [OF staging_constructed v d l r f, of "''backend''" staging_orchestrator] k
  have "(\<exists>orc'. deploy world_hc_fail staging_orchestrator =
            (Some ''Health check failed for frontend after 5 attempts'', orc')
          \<and> currentStep (deploymentState orc') = 4
          \<and> RollbackCalled \<in> set (effects orc')
          \<and> rolled_back_services orc' = [''frontend'', ''backend'']
          \<and> FailureRecordWritten ''Health check failed for frontend after 5 attempts''
             \<in> set (effects orc'))
     \<and> fst (attempt_loop world_hc_fail ''backend'' 5 0 staging_orchestrator) = None"
    unfolding m en by simp
  moreover from health_check_exhaustion_aborts_pipeline
    [OF staging_constructed v d l r f, of "''frontend''" staging_orchestrator] a
  have "fst (attempt_loop world_hc_fail ''frontend'' 5 0 staging_orchestrator)
       = Some ''Health check failed for frontend after 5 attempts''"
    unfolding m by simp
  ultimately show ?thesis using staging_constructed v d l r f b a by simp
qed

end
